theory Spec2Isabelle
  imports Main "HOL-Library.Word"
begin

unbundle bit_operations_syntax

section \<open>The archive database of gmailsync (db/db.go)\<close>

text \<open>
  The model follows the current \<^verbatim>\<open>db\<close> package (the one with the 40-byte file header and
  the feature bits) and the \<^verbatim>\<open>main\<close> package that drives it. Go's \<^verbatim>\<open>[]byte\<close> and
  \<^verbatim>\<open>string\<close> are byte sequences, \<^verbatim>\<open>int64\<close> message ids are 64-bit words, the header
  fields are words of their declared widths.
\<close>

type_synonym byte = "8 word"
type_synonym bytes = "byte list"
type_synonym gostring = "byte list"
type_synonym int64 = "64 word"

subsection \<open>Errors and panics\<close>

text \<open>
  Every error return, \<^verbatim>\<open>panic\<close> and \<^verbatim>\<open>log.Fatal\<close> of the source is a value.
  \<^verbatim>\<open>SliceBounds\<close> is the run-time panic of \<^verbatim>\<open>data[:20]\<close> on a shorter buffer,
  \<^verbatim>\<open>NilDereference\<close> the one of \<^verbatim>\<open>rec.MessageID\<close> on a nil record,
  \<^verbatim>\<open>TypeAssertion\<close> the one of \<^verbatim>\<open>intf.(MessageRecord)\<close> on another value.
\<close>

datatype panic = HashFailure | GzipError | Asn1Error | SliceBounds | NilDereference | TypeAssertion

datatype error = EOF | ErrUnexpectedEOF | IncorrectFileFormat | Panic panic | Fatal

subsection \<open>Library functions the package calls\<close>

text \<open>
  \<^verbatim>\<open>crypto/sha1\<close>, \<^verbatim>\<open>compress/gzip\<close> and \<^verbatim>\<open>encoding/asn1\<close> are not part of the
  repository. The model takes them as a parameter \<open>c\<close>; \<open>None\<close> is the library's error
  return. What a theorem needs of them is a hypothesis of that theorem.
\<close>

record MessageRecord =
  MessageID :: int64
  Data :: bytes

record LabelsEntry =
  EntryMessageID :: int64
  EntryLabels :: "bytes list"

type_synonym LabelsRecord = "LabelsEntry list"

record codec =
  sha1_Sum :: "bytes \<Rightarrow> bytes"
  gzip_Write :: "bytes \<Rightarrow> bytes"
  gzip_ReadAll :: "bytes \<Rightarrow> bytes option"
  asn1_Marshal_Message :: "MessageRecord \<Rightarrow> bytes option"
  asn1_Unmarshal_Message :: "bytes \<Rightarrow> MessageRecord option"
  asn1_Marshal_Labels :: "LabelsRecord \<Rightarrow> bytes option"
  asn1_Unmarshal_Labels :: "bytes \<Rightarrow> LabelsRecord option"

subsection \<open>Constants and headers\<close>

definition AnyType :: "16 word" where "AnyType = 0"
definition MessageRecordType :: "16 word" where "MessageRecordType = 1"
definition LabelsRecordType :: "16 word" where "LabelsRecordType = 2"
definition DeleteRecordType :: "16 word" where "DeleteRecordType = 3"
definition HaveRecordType :: "16 word" where "HaveRecordType = 4"

definition FeatureCompressed :: "16 word" where "FeatureCompressed = 1"
definition FeatureHashed :: "16 word" where "FeatureHashed = 2"

record Header =
  Type :: "16 word"
  FeatureBits :: "16 word"
  Length :: "32 word"

definition fileMagic :: "32 word" where "fileMagic = 0x20121025"

record FileHeader =
  Magic :: "32 word"
  Version :: "8 word"
  Reserved0 :: "8 word"
  Reserved1 :: "16 word"
  CreateTime :: "32 word"
  UpdateTime :: "32 word"
  HavePtr :: "64 word"
  Reserved2 :: "64 word"
  Reserved3 :: "64 word"

definition fileHeaderLength :: nat where "fileHeaderLength = 40"

text \<open>\<^verbatim>\<open>encoding/binary\<close> with \<^verbatim>\<open>binary.LittleEndian\<close>: fixed-width fields, low byte first.\<close>

definition le16 :: "16 word \<Rightarrow> bytes" where
  "le16 w = [ucast w, ucast (drop_bit 8 w)]"

definition le32 :: "32 word \<Rightarrow> bytes" where
  "le32 w = [ucast w, ucast (drop_bit 8 w), ucast (drop_bit 16 w), ucast (drop_bit 24 w)]"

definition le64 :: "64 word \<Rightarrow> bytes" where
  "le64 w = [ucast w, ucast (drop_bit 8 w), ucast (drop_bit 16 w), ucast (drop_bit 24 w),
             ucast (drop_bit 32 w), ucast (drop_bit 40 w), ucast (drop_bit 48 w),
             ucast (drop_bit 56 w)]"

fun le_word :: "bytes \<Rightarrow> 'a::len word" where
  "le_word [] = 0"
| "le_word (b # bs) = ucast b OR push_bit 8 (le_word bs)"

definition put_Header :: "Header \<Rightarrow> bytes" where
  "put_Header h = le16 (Type h) @ le16 (FeatureBits h) @ le32 (Length h)"

definition get_Header :: "bytes \<Rightarrow> Header" where
  "get_Header bs = \<lparr>Type = le_word (take 2 bs),
                    FeatureBits = le_word (take 2 (drop 2 bs)),
                    Length = le_word (take 4 (drop 4 bs))\<rparr>"

definition put_FileHeader :: "FileHeader \<Rightarrow> bytes" where
  "put_FileHeader h =
     le32 (Magic h) @ [Version h] @ [Reserved0 h] @ le16 (Reserved1 h) @
     le32 (CreateTime h) @ le32 (UpdateTime h) @ le64 (HavePtr h) @
     le64 (Reserved2 h) @ le64 (Reserved3 h)"

definition get_FileHeader :: "bytes \<Rightarrow> FileHeader" where
  "get_FileHeader bs =
     \<lparr>Magic = le_word (take 4 bs),
      Version = le_word (take 1 (drop 4 bs)),
      Reserved0 = le_word (take 1 (drop 5 bs)),
      Reserved1 = le_word (take 2 (drop 6 bs)),
      CreateTime = le_word (take 4 (drop 8 bs)),
      UpdateTime = le_word (take 4 (drop 12 bs)),
      HavePtr = le_word (take 8 (drop 16 bs)),
      Reserved2 = le_word (take 8 (drop 24 bs)),
      Reserved3 = le_word (take 8 (drop 32 bs))\<rparr>"

subsection \<open>The file and its single cursor\<close>

text \<open>
  \<^verbatim>\<open>db.fd\<close> is the file's bytes and the one offset that reads, seeks and writes share.
  \<^verbatim>\<open>os.File.Read\<close> into a buffer of \<open>n\<close> bytes returns what is there, up to \<open>n\<close>
  bytes, with a nil error; it returns \<^verbatim>\<open>io.EOF\<close> only when \<open>n > 0\<close> and nothing is
  left. The buffer comes from \<^verbatim>\<open>make\<close>, so the bytes not read stay zero.
  \<^verbatim>\<open>binary.Read\<close> uses \<^verbatim>\<open>io.ReadFull\<close>: \<^verbatim>\<open>io.EOF\<close> when nothing is left,
  \<^verbatim>\<open>io.ErrUnexpectedEOF\<close> when fewer than \<open>n\<close> bytes are. Errors of the operating
  system (a failing disk) are outside the model: \<^verbatim>\<open>Write\<close> and \<^verbatim>\<open>Sync\<close> succeed.
\<close>

record File =
  content :: bytes
  offset :: nat

definition File_Read :: "File \<Rightarrow> nat \<Rightarrow> error + (bytes \<times> File)" where
  "File_Read f n =
     (let got = take n (drop (offset f) (content f))
      in if 0 < n \<and> got = [] then Inl EOF
         else Inr (got @ replicate (n - length got) 0, f\<lparr>offset := offset f + length got\<rparr>))"

definition io_ReadFull :: "File \<Rightarrow> nat \<Rightarrow> error + (bytes \<times> File)" where
  "io_ReadFull f n =
     (let rest = drop (offset f) (content f)
      in if rest = [] then Inl EOF
         else if length rest < n then Inl ErrUnexpectedEOF
         else Inr (take n rest, f\<lparr>offset := offset f + n\<rparr>))"

definition Seek_cur :: "nat \<Rightarrow> File \<Rightarrow> File" where
  "Seek_cur n f = f\<lparr>offset := offset f + n\<rparr>"

definition Seek_set :: "nat \<Rightarrow> File \<Rightarrow> File" where
  "Seek_set n f = f\<lparr>offset := n\<rparr>"

definition Seek_end :: "File \<Rightarrow> File" where
  "Seek_end f = f\<lparr>offset := length (content f)\<rparr>"

definition File_Write :: "bytes \<Rightarrow> File \<Rightarrow> File" where
  "File_Write bs f =
     f\<lparr>content := take (offset f) (content f @ replicate (offset f - length (content f)) 0)
                    @ bs @ drop (offset f + length bs) (content f),
       offset := offset f + length bs\<rparr>"

definition binary_Read_Header :: "File \<Rightarrow> error + (Header \<times> File)" where
  "binary_Read_Header f =
     (case io_ReadFull f 8 of Inl e \<Rightarrow> Inl e | Inr (bs, f') \<Rightarrow> Inr (get_Header bs, f'))"

subsection \<open>The record codec: hash, compress, decompress\<close>

definition hash :: "codec \<Rightarrow> bytes \<Rightarrow> bytes" where
  "hash c bs = sha1_Sum c bs"

definition compress :: "codec \<Rightarrow> bytes \<Rightarrow> bytes" where
  "compress c bs = gzip_Write c bs"

definition decompress :: "codec \<Rightarrow> bytes \<Rightarrow> error + bytes" where
  "decompress c bs = (case gzip_ReadAll c bs of None \<Rightarrow> Inl (Panic GzipError) | Some d \<Rightarrow> Inr d)"

text \<open>The bytes \<^verbatim>\<open>writeRecord\<close> builds before it writes them (its variable \<^verbatim>\<open>bs\<close>).\<close>

definition encodeRecord :: "codec \<Rightarrow> 16 word \<Rightarrow> bytes \<Rightarrow> bytes" where
  "encodeRecord c features data =
     (if features AND FeatureHashed \<noteq> 0 then hash c data else []) @
     (if features AND FeatureCompressed \<noteq> 0 then compress c data else data)"

text \<open>
  What \<^verbatim>\<open>nextRecord\<close> does with the bytes it has read, before it looks at the type:
  split off the hash, decompress, compare the hash.
\<close>

definition decodeRecord :: "codec \<Rightarrow> 16 word \<Rightarrow> bytes \<Rightarrow> error + bytes" where
  "decodeRecord c features data =
     (if features AND FeatureHashed \<noteq> 0 \<and> length data < 20 then Inl (Panic SliceBounds)
      else
        let dhash = (if features AND FeatureHashed \<noteq> 0 then take 20 data else []);
            data1 = (if features AND FeatureHashed \<noteq> 0 then drop 20 data else data)
        in case (if features AND FeatureCompressed \<noteq> 0 then decompress c data1 else Inr data1) of
             Inl e \<Rightarrow> Inl e
           | Inr data2 \<Rightarrow>
               if features AND FeatureHashed \<noteq> 0 \<and> hash c data2 \<noteq> dhash
               then Inl (Panic HashFailure)
               else Inr data2)"

subsection \<open>Reading records: nextRecord\<close>

text \<open>
  \<^verbatim>\<open>nextRecord\<close> returns an \<^verbatim>\<open>interface{}\<close> that holds a \<^verbatim>\<open>MessageRecord\<close> or a
  \<^verbatim>\<open>LabelsRecord\<close>.
\<close>

datatype record_value = MessageValue MessageRecord | LabelsValue LabelsRecord

text \<open>
  The second half of the loop body of \<^verbatim>\<open>nextRecord\<close>, from the hash split to the
  \<^verbatim>\<open>switch hdr.Type\<close>: \<open>Inr None\<close> is a record of any other type, for which the
  \<^verbatim>\<open>switch\<close> has no case and the loop goes on to the next header.
\<close>

definition recordValue :: "codec \<Rightarrow> 16 word \<Rightarrow> 16 word \<Rightarrow> bytes \<Rightarrow> error + record_value option" where
  "recordValue c rtype features data =
     (case decodeRecord c features data of
        Inl e \<Rightarrow> Inl e
      | Inr data' \<Rightarrow>
          if rtype = MessageRecordType then
            (case asn1_Unmarshal_Message c data' of
               None \<Rightarrow> Inl (Panic Asn1Error)
             | Some msg \<Rightarrow> Inr (Some (MessageValue msg)))
          else if rtype = LabelsRecordType then
            (case asn1_Unmarshal_Labels c data' of
               None \<Rightarrow> Inl (Panic Asn1Error)
             | Some lbl \<Rightarrow> Inr (Some (LabelsValue lbl)))
          else Inr None)"

function nextRecord :: "codec \<Rightarrow> 16 word \<Rightarrow> File \<Rightarrow> error + (record_value \<times> File)" where
  "nextRecord c recordType f =
     (case binary_Read_Header f of
        Inl e \<Rightarrow> Inl e
      | Inr (hdr, f1) \<Rightarrow>
          if recordType \<noteq> AnyType \<and> Type hdr \<noteq> recordType
          then nextRecord c recordType (Seek_cur (unat (Length hdr)) f1)
          else
            (case File_Read f1 (unat (Length hdr)) of
               Inl e \<Rightarrow> Inl e
             | Inr (data, f2) \<Rightarrow>
                 (case recordValue c (Type hdr) (FeatureBits hdr) data of
                    Inl e \<Rightarrow> Inl e
                  | Inr (Some v) \<Rightarrow> Inr (v, f2)
                  | Inr None \<Rightarrow> nextRecord c recordType f2)))"
  by pat_completeness auto

lemma binary_Read_Header_Inr:
  assumes "binary_Read_Header f = Inr (hdr, f1)"
  shows "content f1 = content f" and "offset f1 = offset f + 8"
    and "offset f + 8 \<le> length (content f)"
    and "hdr = get_Header (take 8 (drop (offset f) (content f)))"
  using assms
  by (auto simp: binary_Read_Header_def io_ReadFull_def Let_def split: if_splits sum.splits)

lemma File_Read_Inr:
  assumes "File_Read f n = Inr (data, f2)"
  shows "content f2 = content f" and "offset f \<le> offset f2"
    and "offset f2 \<le> max (offset f) (length (content f))"
  using assms
  by (auto simp: File_Read_def Let_def split: if_splits)

termination nextRecord
proof (relation "measure (\<lambda>(c, t, f). length (content f) - offset f)", goal_cases)
  case 1
  show ?case by simp
next
  case (2 c recordType f x2 hdr f1)
  then have "binary_Read_Header f = Inr (hdr, f1)" by simp
  from binary_Read_Header_Inr[OF this] show ?case
    by (simp add: Seek_cur_def)
next
  case (3 c recordType f x2 hdr f1 x2a data f2 x2b)
  then have h: "binary_Read_Header f = Inr (hdr, f1)"
    and r: "File_Read f1 (unat (Length hdr)) = Inr (data, f2)" by simp_all
  from binary_Read_Header_Inr[OF h] File_Read_Inr[OF r] show ?case
    by simp
qed

declare nextRecord.simps [simp del]

subsection \<open>The database and its index\<close>

text \<open>
  \<^verbatim>\<open>labels\<close> and \<^verbatim>\<open>haveMsgID\<close> are only indexed and assigned to. \<^verbatim>\<open>labelsChanged\<close> is
  also ranged over, so its keys have to be enumerable: it is the list of its key-value
  pairs, each key once.
\<close>

record DB =
  labels :: "int64 \<rightharpoonup> gostring list"
  labelsChanged :: "(int64 \<times> bool) list"
  haveMsgID :: "int64 \<rightharpoonup> bool"
  fd :: File

text \<open>
  \<^verbatim>\<open>Size\<close>, \<^verbatim>\<open>HaveUID\<close>, \<^verbatim>\<open>Labels\<close>, \<^verbatim>\<open>SetLabels\<close>, \<^verbatim>\<open>WriteMessage\<close> and \<^verbatim>\<open>WriteLabels\<close>
  hold the mutex of the database while they touch it; the model runs the methods one
  at a time and leaves the mutex out.
  Indexing a Go map at a key it does not hold gives the zero value: \<^verbatim>\<open>false\<close>, or
  the nil slice, which has length 0.
\<close>

definition map_bool :: "(int64 \<rightharpoonup> bool) \<Rightarrow> int64 \<Rightarrow> bool" where
  "map_bool m k = (case m k of None \<Rightarrow> False | Some b \<Rightarrow> b)"

definition map_slice :: "(int64 \<rightharpoonup> gostring list) \<Rightarrow> int64 \<Rightarrow> gostring list" where
  "map_slice m k = (case m k of None \<Rightarrow> [] | Some ls \<Rightarrow> ls)"

definition stringSliceToBytes :: "gostring list \<Rightarrow> bytes list" where
  "stringSliceToBytes ss = foldl (\<lambda>res s. res @ [s]) [] ss"

definition bytesSliceToStrings :: "bytes list \<Rightarrow> gostring list" where
  "bytesSliceToStrings bs = foldl (\<lambda>res b. res @ [b]) [] bs"

definition Rewind :: "DB \<Rightarrow> DB" where
  "Rewind db = db\<lparr>fd := Seek_set fileHeaderLength (fd db)\<rparr>"

definition Size :: "DB \<Rightarrow> nat" where
  "Size db = card (dom (haveMsgID db))"

definition HaveUID :: "DB \<Rightarrow> int64 \<Rightarrow> bool" where
  "HaveUID db msgid = map_bool (haveMsgID db) msgid"

definition Labels :: "DB \<Rightarrow> int64 \<Rightarrow> gostring list" where
  "Labels db msgid = map_slice (labels db) msgid"

text \<open>The assignment \<^verbatim>\<open>m[k] = v\<close> on such a list: the pair of \<open>k\<close> is replaced, or added.\<close>

fun map_assign :: "int64 \<Rightarrow> bool \<Rightarrow> (int64 \<times> bool) list \<Rightarrow> (int64 \<times> bool) list" where
  "map_assign k v [] = [(k, v)]"
| "map_assign k v (p # ps) = (if fst p = k then (k, v) # ps else p # map_assign k v ps)"

text \<open>
  \<^verbatim>\<open>for k := range m\<close> visits every key of \<open>m\<close> once, in an order the Go runtime
  chooses. The choice is the argument \<open>order\<close>: the keys of \<open>m\<close> are visited in the
  order in which \<open>order\<close> names them, followed by the keys it does not name. Whatever
  \<open>order\<close> is, the result lists the keys of \<open>m\<close> and nothing else, each once; and
  every order of the keys is the result for some \<open>order\<close>.
\<close>

definition range_keys :: "int64 list \<Rightarrow> (int64 \<times> bool) list \<Rightarrow> int64 list" where
  "range_keys order m =
     filter (\<lambda>k. k \<in> set (map fst m)) (remdups order) @
     filter (\<lambda>k. k \<notin> set order) (remdups (map fst m))"

definition SetLabels :: "int64 \<Rightarrow> gostring list \<Rightarrow> DB \<Rightarrow> DB" where
  "SetLabels msgid lbls db =
     db\<lparr>labels := (labels db)(msgid \<mapsto> lbls),
        labelsChanged := map_assign msgid True (labelsChanged db)\<rparr>"

subsection \<open>Writing records\<close>

text \<open>
  \<^verbatim>\<open>writeRecord\<close> seeks to the end, writes the header and the stored bytes, and returns
  the result of \<^verbatim>\<open>Sync\<close>, which is nil here. The length field is \<^verbatim>\<open>uint32(len(bs))\<close>.
\<close>

definition writeRecord :: "codec \<Rightarrow> 16 word \<Rightarrow> 16 word \<Rightarrow> bytes \<Rightarrow> File \<Rightarrow> error + File" where
  "writeRecord c rtype features data f =
     (let bs = encodeRecord c features data;
          hdr = \<lparr>Type = rtype, FeatureBits = features, Length = of_nat (length bs)\<rparr>
      in Inr (File_Write bs (File_Write (put_Header hdr) (Seek_end f))))"

definition WriteMessage :: "codec \<Rightarrow> int64 \<Rightarrow> bytes \<Rightarrow> DB \<Rightarrow> error + DB" where
  "WriteMessage c msgid data db =
     (case asn1_Marshal_Message c \<lparr>MessageID = msgid, Data = data\<rparr> of
        None \<Rightarrow> Inl (Panic Asn1Error)
      | Some bs \<Rightarrow>
          (case writeRecord c MessageRecordType (FeatureCompressed OR FeatureHashed) bs (fd db) of
             Inl e \<Rightarrow> Inl e
           | Inr f \<Rightarrow> Inr (db\<lparr>fd := f\<rparr>)))"

text \<open>
  The loop \<^verbatim>\<open>for msgid := range db.labelsChanged\<close> of \<^verbatim>\<open>WriteLabels\<close>, which builds
  \<^verbatim>\<open>lbls\<close>; \<open>ks\<close> is the order the runtime chooses for this call.
\<close>

definition WriteLabels_lbls :: "int64 list \<Rightarrow> DB \<Rightarrow> LabelsRecord" where
  "WriteLabels_lbls ks db =
     foldl (\<lambda>lbls msgid.
              lbls @ [\<lparr>EntryMessageID = msgid,
                       EntryLabels = stringSliceToBytes (map_slice (labels db) msgid)\<rparr>])
           [] (range_keys ks (labelsChanged db))"

definition WriteLabels :: "codec \<Rightarrow> int64 list \<Rightarrow> DB \<Rightarrow> error + DB" where
  "WriteLabels c ks db =
     (let lbls = WriteLabels_lbls ks db;
          db1 = db\<lparr>labelsChanged := []\<rparr>
      in case asn1_Marshal_Labels c lbls of
           None \<Rightarrow> Inl (Panic Asn1Error)
         | Some bs \<Rightarrow>
             (case writeRecord c LabelsRecordType FeatureCompressed bs (fd db1) of
                Inl e \<Rightarrow> Inl e
              | Inr f \<Rightarrow> Inr (db1\<lparr>fd := f\<rparr>)))"

definition ReadMessage :: "codec \<Rightarrow> DB \<Rightarrow> error + (MessageRecord \<times> DB)" where
  "ReadMessage c db =
     (case nextRecord c MessageRecordType (fd db) of
        Inl e \<Rightarrow> Inl e
      | Inr (MessageValue rec, f) \<Rightarrow> Inr (rec, db\<lparr>fd := f\<rparr>)
      | Inr (LabelsValue l, f) \<Rightarrow> Inl (Panic TypeAssertion))"

subsection \<open>Opening an archive: the replay\<close>

text \<open>
  The \<^verbatim>\<open>switch\<close> in the loop of \<^verbatim>\<open>Open\<close>: a message record marks its id as had, a
  labels record overwrites the labels of every id it lists, in the order of its entries.
\<close>

definition Open_apply :: "record_value \<Rightarrow> DB \<Rightarrow> DB" where
  "Open_apply rec db =
     (case rec of
        MessageValue trec \<Rightarrow> db\<lparr>haveMsgID := (haveMsgID db)(MessageID trec \<mapsto> True)\<rparr>
      | LabelsValue trec \<Rightarrow>
          db\<lparr>labels := foldl (\<lambda>m lrec. m(EntryMessageID lrec \<mapsto> bytesSliceToStrings (EntryLabels lrec)))
                           (labels db) trec\<rparr>)"

lemma nextRecord_Inr:
  "nextRecord c t f = Inr (v, f') \<Longrightarrow>
     content f' = content f \<and> offset f < offset f' \<and> offset f' \<le> length (content f)"
proof (induction c t f rule: nextRecord.induct)
  case (1 c recordType f)
  from "1.prems" obtain hdr f1 where h: "binary_Read_Header f = Inr (hdr, f1)"
    by (subst (asm) nextRecord.simps) (auto split: sum.splits)
  note hf = binary_Read_Header_Inr[OF h]
  show ?case
  proof (cases "recordType \<noteq> AnyType \<and> Type hdr \<noteq> recordType")
    case True
    with "1.prems" h have "nextRecord c recordType (Seek_cur (unat (Length hdr)) f1) = Inr (v, f')"
      by (subst (asm) nextRecord.simps) simp
    from "1.IH"(1)[OF h refl True this] hf show ?thesis
      by (simp add: Seek_cur_def)
  next
    case False
    with "1.prems" h obtain data f2 where r: "File_Read f1 (unat (Length hdr)) = Inr (data, f2)"
      by (subst (asm) nextRecord.simps) (auto split: sum.splits)
    note rf = File_Read_Inr[OF r]
    from "1.prems" h False r obtain ov where
      rv: "recordValue c (Type hdr) (FeatureBits hdr) data = Inr ov"
      by (subst (asm) nextRecord.simps) (auto split: sum.splits)
    show ?thesis
    proof (cases ov)
      case None
      with "1.prems" h False r rv have "nextRecord c recordType f2 = Inr (v, f')"
        by (subst (asm) nextRecord.simps) simp
      from "1.IH"(2)[OF h refl False r refl rv None this] hf rf
      show ?thesis by simp
    next
      case (Some v')
      with "1.prems" h False r rv have "f' = f2"
        by (subst (asm) nextRecord.simps) simp
      with hf rf show ?thesis by simp
    qed
  qed
qed

text \<open>
  The \<^verbatim>\<open>for\<close> loop of \<^verbatim>\<open>Open\<close>: \<^verbatim>\<open>io.EOF\<close> from \<^verbatim>\<open>nextRecord\<close> ends it, any other error
  is returned, a panic stays a panic. The database returned at \<^verbatim>\<open>io.EOF\<close> carries the
  file offset from before the last call of \<^verbatim>\<open>nextRecord\<close>; \<^verbatim>\<open>Open\<close> rewinds next, so
  where the failed call left the offset does not matter.
\<close>

function Open_loop :: "codec \<Rightarrow> DB \<Rightarrow> error + DB" where
  "Open_loop c db =
     (case nextRecord c AnyType (fd db) of
        Inl e \<Rightarrow> if e = EOF then Inr db else Inl e
      | Inr (rec, f) \<Rightarrow> Open_loop c (Open_apply rec (db\<lparr>fd := f\<rparr>)))"
  by pat_completeness auto

lemma fd_Open_apply [simp]: "fd (Open_apply rec db) = fd db"
  by (simp add: Open_apply_def split: record_value.splits)

termination Open_loop
proof (relation "measure (\<lambda>(c, db). length (content (fd db)) - offset (fd db))", goal_cases)
  case 1
  show ?case by simp
next
  case (2 c db x2 rec f)
  then have "nextRecord c AnyType (fd db) = Inr (rec, f)" by simp
  from nextRecord_Inr[OF this] show ?case by auto
qed

declare Open_loop.simps [simp del]

text \<open>
  \<^verbatim>\<open>Open\<close> of a file whose bytes are \<open>file\<close> (empty for a file that does not exist yet
  or has size 0) at the time \<open>now\<close>. The error of the \<^verbatim>\<open>binary.Read\<close> of the file
  header is ignored by the source: on a file shorter than the header the struct keeps
  its zero value.
\<close>

definition binary_Read_FileHeader :: "File \<Rightarrow> FileHeader \<times> File" where
  "binary_Read_FileHeader f =
     (case io_ReadFull f fileHeaderLength of
        Inl e \<Rightarrow> (\<lparr>Magic = 0, Version = 0, Reserved0 = 0, Reserved1 = 0, CreateTime = 0,
                    UpdateTime = 0, HavePtr = 0, Reserved2 = 0, Reserved3 = 0\<rparr>,
                  Seek_end f)
      | Inr (bs, f') \<Rightarrow> (get_FileHeader bs, f'))"

definition Open :: "codec \<Rightarrow> 32 word \<Rightarrow> bytes \<Rightarrow> error + DB" where
  "Open c now file =
     (let db = \<lparr>labels = Map.empty, labelsChanged = [], haveMsgID = Map.empty,
                fd = \<lparr>content = file, offset = 0\<rparr>\<rparr>
      in if file = [] then
           let fhdr = \<lparr>Magic = fileMagic, Version = 1, Reserved0 = 0, Reserved1 = 0,
                       CreateTime = now, UpdateTime = 0, HavePtr = 0, Reserved2 = 0,
                       Reserved3 = 0\<rparr>
           in case Open_loop c (db\<lparr>fd := File_Write (put_FileHeader fhdr) (fd db)\<rparr>) of
                Inl e \<Rightarrow> Inl e
              | Inr db' \<Rightarrow> Inr (Rewind db')
         else
           let (fhdr, f) = binary_Read_FileHeader (fd db)
           in if Magic fhdr \<noteq> fileMagic then Inl IncorrectFileFormat
              else case Open_loop c (db\<lparr>fd := f\<rparr>) of
                     Inl e \<Rightarrow> Inl e
                   | Inr db' \<Rightarrow> Inr (Rewind db'))"

section \<open>The command (main.go)\<close>

subsection \<open>The export: mbox\<close>

text \<open>
  \<^verbatim>\<open>mbox\<close> writes, for every record that \<^verbatim>\<open>ReadMessage\<close> returns, the separator line,
  the labels header when the message has labels, the id header and the escaped body.
  The text written for one message is a function of the labels, the id and the data;
  the model keeps these three as the unit written and leaves the formatting out.
  When \<^verbatim>\<open>ReadMessage\<close> fails with an error other than \<^verbatim>\<open>io.EOF\<close> the record is nil and
  \<^verbatim>\<open>rec.MessageID\<close> panics.
\<close>

record mbox_unit =
  unit_labels :: "gostring list"
  unit_msgid :: int64
  unit_data :: bytes

function mbox_loop :: "codec \<Rightarrow> DB \<Rightarrow> mbox_unit list \<Rightarrow> error + mbox_unit list" where
  "mbox_loop c db written =
     (case ReadMessage c db of
        Inl e \<Rightarrow>
          (case e of
             EOF \<Rightarrow> Inr written
           | Panic p \<Rightarrow> Inl (Panic p)
           | _ \<Rightarrow> Inl (Panic NilDereference))
      | Inr (rec, db') \<Rightarrow>
          mbox_loop c db'
            (written @ [\<lparr>unit_labels = Labels db' (MessageID rec), unit_msgid = MessageID rec,
                         unit_data = Data rec\<rparr>]))"
  by pat_completeness auto

lemma ReadMessage_Inr:
  "ReadMessage c db = Inr (rec, db') \<Longrightarrow>
     content (fd db') = content (fd db) \<and> offset (fd db) < offset (fd db') \<and>
     offset (fd db') \<le> length (content (fd db)) \<and> db' = db\<lparr>fd := fd db'\<rparr>"
  by (auto simp: ReadMessage_def split: sum.splits record_value.splits dest!: nextRecord_Inr)

termination mbox_loop
proof (relation "measure (\<lambda>(c, db, w). length (content (fd db)) - offset (fd db))", goal_cases)
  case 1
  show ?case by simp
next
  case (2 c db written x2 rec db')
  then have "ReadMessage c db = Inr (rec, db')" by simp
  from ReadMessage_Inr[OF this] show ?case by auto
qed

declare mbox_loop.simps [simp del]

definition mbox :: "codec \<Rightarrow> DB \<Rightarrow> error + mbox_unit list" where
  "mbox c db = mbox_loop c db []"

subsection \<open>The scan: findNewUIDs\<close>

text \<open>
  \<^verbatim>\<open>imap.MsgID\<close> is one line of the server's listing, \<^verbatim>\<open>main.MsgID\<close> what is sent to
  the workers. The channel is the sequence of values sent and not yet received, and
  whether it has been closed; its capacity, and the blocking of a sender on a full
  channel, are not modelled.
\<close>

record imap_MsgID =
  sUID :: "32 word"
  sMsgID :: int64
  sLabels :: "gostring list"

record MsgID =
  UID :: "32 word"
  MsgID :: int64

record chan =
  queue :: "MsgID list"
  is_closed :: bool

definition sliceEquals :: "gostring list \<Rightarrow> gostring list \<Rightarrow> bool" where
  "sliceEquals a b =
     (if length a \<noteq> length b then False
      else list_all (\<lambda>i. a ! i = b ! i) [0..<length a])"

text \<open>
  The body of \<^verbatim>\<open>for _, msgid := range msgids\<close>, on the database, the channel and the
  counter \<^verbatim>\<open>fetch\<close>. The progress counters are written and never read by the scan;
  they are left out.
\<close>

definition scan_msgid :: "DB \<times> chan \<times> nat \<Rightarrow> imap_MsgID \<Rightarrow> DB \<times> chan \<times> nat" where
  "scan_msgid s msgid =
     (case s of (db, out, fetch) \<Rightarrow>
        let (out1, fetch1) =
              (if \<not> HaveUID db (sMsgID msgid)
               then (out\<lparr>queue := queue out @ [\<lparr>UID = sUID msgid, MsgID = sMsgID msgid\<rparr>]\<rparr>,
                     fetch + 1)
               else (out, fetch));
            db1 = (if \<not> sliceEquals (sLabels msgid) (Labels db (sMsgID msgid))
                   then SetLabels (sMsgID msgid) (sLabels msgid) db else db)
        in (db1, out1, fetch1))"

definition adjust_step :: "nat \<Rightarrow> 32 word \<Rightarrow> 32 word" where
  "adjust_step fetch step =
     (if fetch = 0 \<and> step < 3200 then step * 2
      else if fetch > 0 \<and> step > 100 then step div 2
      else step)"

text \<open>
  What the environment contributes to one round of the loop: the server's answer to
  \<^verbatim>\<open>MsgIDSearch(begin, end)\<close> (\<open>None\<close> for an error, which is fatal), and the order
  the runtime chooses when \<^verbatim>\<open>WriteLabels\<close> ranges over the dirty ids.
\<close>

record round_env =
  MsgIDSearch :: "32 word \<Rightarrow> 32 word \<Rightarrow> imap_MsgID list option"
  range_order :: "int64 list"

text \<open>The variables of the goroutine; \<open>beginv\<close> is its \<^verbatim>\<open>begin\<close>.\<close>

record scan_state =
  scan_db :: DB
  out :: chan
  beginv :: "32 word"
  step :: "32 word"

definition findNewUIDs_init :: "DB \<Rightarrow> scan_state" where
  "findNewUIDs_init db =
     \<lparr>scan_db = db, out = \<lparr>queue = [], is_closed = False\<rparr>, beginv = 1, step = 100\<rparr>"

definition scan_round :: "codec \<Rightarrow> round_env \<Rightarrow> scan_state \<Rightarrow> error + scan_state" where
  "scan_round c env st =
     (let endv = beginv st + step st - 1
      in case MsgIDSearch env (beginv st) endv of
           None \<Rightarrow> Inl Fatal
         | Some msgids \<Rightarrow>
             let begin1 = beginv st + step st;
                 (db1, out1, fetch) = foldl scan_msgid (scan_db st, out st, 0) msgids
             in case WriteLabels c (range_order env) db1 of
                  Inl e \<Rightarrow> Inl e
                | Inr db2 \<Rightarrow>
                    Inr \<lparr>scan_db = db2, out = out1, beginv = begin1,
                         step = adjust_step fetch (step st)\<rparr>)"

text \<open>
  The goroutine of \<^verbatim>\<open>findNewUIDs\<close>, run for as many rounds as the list gives answers
  for: the state after these rounds, or after the loop has ended and closed the channel
  if that comes first.
\<close>

fun findNewUIDs_loop :: "codec \<Rightarrow> 32 word \<Rightarrow> round_env list \<Rightarrow> scan_state \<Rightarrow> error + scan_state" where
  "findNewUIDs_loop c messages [] st =
     (if beginv st < messages then Inr st
      else Inr (st\<lparr>out := (out st)\<lparr>is_closed := True\<rparr>\<rparr>))"
| "findNewUIDs_loop c messages (env # envs) st =
     (if beginv st < messages then
        (case scan_round c env st of
           Inl e \<Rightarrow> Inl e
         | Inr st' \<Rightarrow> findNewUIDs_loop c messages envs st')
      else Inr (st\<lparr>out := (out st)\<lparr>is_closed := True\<rparr>\<rparr>))"

subsection \<open>The workers: fetchAndStore\<close>

text \<open>
  The \<^verbatim>\<open>for\<close> loop of one worker, with \<^verbatim>\<open>client.GetMail\<close> as a parameter (\<open>None\<close> is
  its error, which is fatal). The result \<open>None\<close> is a loop that does not end;
  \<open>Some (Inr db)\<close> is the loop left, after which the source calls \<^verbatim>\<open>wg.Done()\<close>.
  A receive from a closed and empty channel returns at once with \<^verbatim>\<open>ok == false\<close>; the
  \<^verbatim>\<open>break\<close> that follows is inside the \<^verbatim>\<open>select\<close> and leaves the \<^verbatim>\<open>select\<close>, so the
  \<^verbatim>\<open>for\<close> goes round again. A receive from an open and empty channel waits for a
  sender; the model of one worker has none, so it waits for ever.
\<close>

partial_function (option) fetchAndStore_loop ::
  "codec \<Rightarrow> (32 word \<Rightarrow> bytes option) \<Rightarrow> chan \<Rightarrow> DB \<Rightarrow> (error + DB) option" where
  "fetchAndStore_loop c GetMail msgids db =
     (case queue msgids of
        [] \<Rightarrow> if is_closed msgids then fetchAndStore_loop c GetMail msgids db else None
      | msgid # rest \<Rightarrow>
          (case GetMail (UID msgid) of
             None \<Rightarrow> Some (Inl Fatal)
           | Some body \<Rightarrow>
               (case WriteMessage c (MsgID msgid) body db of
                  Inl e \<Rightarrow> Some (Inl e)
                | Inr db' \<Rightarrow> fetchAndStore_loop c GetMail (msgids\<lparr>queue := rest\<rparr>) db')))"

section \<open>Archives as sequences of records\<close>

text \<open>
  The statements below describe a file by the records it holds. A stored record is the
  type and the feature bits of its header with the bytes that follow the header; its
  frame is the header, with the number of these bytes as length, followed by the bytes
  (README, ``Record Structure''; it is what \<^verbatim>\<open>writeRecord\<close> appends). An archive is the
  40-byte file header followed by frames.
\<close>

record stored =
  sType :: "16 word"
  sFeatures :: "16 word"
  sBytes :: bytes

definition frame :: "stored \<Rightarrow> bytes" where
  "frame r = put_Header \<lparr>Type = sType r, FeatureBits = sFeatures r,
                         Length = of_nat (length (sBytes r))\<rparr> @ sBytes r"

definition frames :: "stored list \<Rightarrow> bytes" where
  "frames rs = concat (map frame rs)"

text \<open>
  The values that \<^verbatim>\<open>nextRecord(AnyType)\<close> returns for a sequence of stored records, in
  order, or the first panic it meets; records of other types than message and labels
  give no value.
\<close>

fun decode_all :: "codec \<Rightarrow> stored list \<Rightarrow> error + record_value list" where
  "decode_all c [] = Inr []"
| "decode_all c (r # rs) =
     (case recordValue c (sType r) (sFeatures r) (sBytes r) of
        Inl e \<Rightarrow> Inl e
      | Inr ov \<Rightarrow>
          (case decode_all c rs of
             Inl e \<Rightarrow> Inl e
           | Inr vs \<Rightarrow> Inr (case ov of None \<Rightarrow> vs | Some v \<Rightarrow> v # vs)))"

text \<open>The effect of the loop of \<^verbatim>\<open>Open\<close> on the index for a sequence of values.\<close>

definition Open_fold :: "record_value list \<Rightarrow> DB \<Rightarrow> DB" where
  "Open_fold vs db = foldl (\<lambda>d v. Open_apply v d) db vs"

text \<open>The end of \<^verbatim>\<open>Open\<close>: the loop, then \<^verbatim>\<open>Rewind\<close>.\<close>

definition Open_rewound :: "codec \<Rightarrow> DB \<Rightarrow> error + DB" where
  "Open_rewound c db = (case Open_loop c db of Inl e \<Rightarrow> Inl e | Inr db' \<Rightarrow> Inr (Rewind db'))"

definition archive :: "FileHeader \<Rightarrow> stored list \<Rightarrow> bytes" where
  "archive h rs = put_FileHeader h @ frames rs"

text \<open>The database with which \<^verbatim>\<open>Open\<close> starts on the file \<open>file\<close>.\<close>

definition new_DB :: "bytes \<Rightarrow> DB" where
  "new_DB file = \<lparr>labels = Map.empty, labelsChanged = [], haveMsgID = Map.empty,
                  fd = \<lparr>content = file, offset = 0\<rparr>\<rparr>"

text \<open>The entries of a labels record; a message record has none.\<close>

definition entries_of :: "record_value \<Rightarrow> LabelsEntry list" where
  "entries_of v = (case v of LabelsValue l \<Rightarrow> l | MessageValue m \<Rightarrow> [])"

text \<open>The window sizes the scan can reach from 100.\<close>

definition step_values :: "32 word set" where
  "step_values = {100, 200, 400, 800, 1600, 3200}"

section \<open>Stand-ins for the libraries, for concrete runs\<close>

text \<open>
  A concrete run of the model needs concrete library functions. The stand-ins below are
  not the libraries; they keep the shape that matters to the package:
  \<^item> the digest has 20 bytes and depends on the payload;
  \<^item> the compressed stream starts with the ten bytes that Go's \<^verbatim>\<open>gzip.Writer\<close> puts
    first when no name, comment or time is set (magic \<open>1f 8b\<close>, method 8, flags 0, four
    bytes of modification time, extra flags 0, operating system \<open>ff\<close>); the reader
    checks magic, method and flags and, like \<^verbatim>\<open>gzip.Reader\<close>, does not examine the
    other six bytes; the data follow as they are, where gzip has the deflate stream
    and its trailer;
  \<^item> messages and labels are marshalled with fixed-width ids and length-prefixed
    strings.
  The theorems about the package hold for every \<open>c\<close> that meets their hypotheses; the
  stand-ins instantiate them and run the examples.
\<close>

definition demo_sha1 :: "bytes \<Rightarrow> bytes" where
  "demo_sha1 bs = foldr (+) bs 0 # foldr (XOR) bs 0 # replicate 18 (of_nat (length bs))"

definition demo_gzip_Write :: "bytes \<Rightarrow> bytes" where
  "demo_gzip_Write bs = [0x1f, 0x8b, 0x08, 0x00, 0x00, 0x00, 0x00, 0x00, 0x00, 0xff] @ bs"

definition demo_gzip_ReadAll :: "bytes \<Rightarrow> bytes option" where
  "demo_gzip_ReadAll bs =
     (if length bs < 10 \<or> take 4 bs \<noteq> [0x1f, 0x8b, 0x08, 0x00] then None
      else Some (drop 10 bs))"

definition demo_Marshal_Message :: "MessageRecord \<Rightarrow> bytes option" where
  "demo_Marshal_Message m = Some (le64 (MessageID m) @ Data m)"

definition demo_Unmarshal_Message :: "bytes \<Rightarrow> MessageRecord option" where
  "demo_Unmarshal_Message bs =
     (if length bs < 8 then None
      else Some \<lparr>MessageID = le_word (take 8 bs), Data = drop 8 bs\<rparr>)"

fun demo_put_strings :: "bytes list \<Rightarrow> bytes" where
  "demo_put_strings [] = []"
| "demo_put_strings (l # ls) = of_nat (length l) # l @ demo_put_strings ls"

fun demo_get_strings :: "nat \<Rightarrow> bytes \<Rightarrow> (bytes list \<times> bytes) option" where
  "demo_get_strings 0 bs = Some ([], bs)"
| "demo_get_strings (Suc n) [] = None"
| "demo_get_strings (Suc n) (b # bs) =
     (if length bs < unat b then None
      else case demo_get_strings n (drop (unat b) bs) of
             None \<Rightarrow> None
           | Some (ls, rest) \<Rightarrow> Some (take (unat b) bs # ls, rest))"

fun demo_put_entries :: "LabelsRecord \<Rightarrow> bytes" where
  "demo_put_entries [] = []"
| "demo_put_entries (e # es) =
     le64 (EntryMessageID e) @ of_nat (length (EntryLabels e)) # demo_put_strings (EntryLabels e)
     @ demo_put_entries es"

fun demo_get_entries :: "nat \<Rightarrow> bytes \<Rightarrow> LabelsRecord option" where
  "demo_get_entries 0 bs = (if bs = [] then Some [] else None)"
| "demo_get_entries (Suc n) bs =
     (if length bs < 9 then None
      else case demo_get_strings (unat (bs ! 8)) (drop 9 bs) of
             None \<Rightarrow> None
           | Some (ls, rest) \<Rightarrow>
               (case demo_get_entries n rest of
                  None \<Rightarrow> None
                | Some es \<Rightarrow> Some (\<lparr>EntryMessageID = le_word (take 8 bs), EntryLabels = ls\<rparr> # es)))"

definition demo_Marshal_Labels :: "LabelsRecord \<Rightarrow> bytes option" where
  "demo_Marshal_Labels lbls =
     (if length lbls < 256 \<and>
         list_all (\<lambda>e. length (EntryLabels e) < 256 \<and> list_all (\<lambda>l. length l < 256) (EntryLabels e)) lbls
      then Some (of_nat (length lbls) # demo_put_entries lbls) else None)"

definition demo_Unmarshal_Labels :: "bytes \<Rightarrow> LabelsRecord option" where
  "demo_Unmarshal_Labels bs =
     (case bs of [] \<Rightarrow> None | n # rest \<Rightarrow> demo_get_entries (unat n) rest)"

definition demo :: codec where
  "demo = \<lparr>sha1_Sum = demo_sha1, gzip_Write = demo_gzip_Write, gzip_ReadAll = demo_gzip_ReadAll,
           asn1_Marshal_Message = demo_Marshal_Message,
           asn1_Unmarshal_Message = demo_Unmarshal_Message,
           asn1_Marshal_Labels = demo_Marshal_Labels,
           asn1_Unmarshal_Labels = demo_Unmarshal_Labels\<rparr>"

subsection \<open>Example archives and runs\<close>

text \<open>
  \<open>ex_db\<close> is the database of a new archive created at time 0. \<open>ex_message i\<close> is the
  record \<^verbatim>\<open>WriteMessage\<close> stores for the id \<open>i\<close> and the body \<^verbatim>\<open>hi\<close>, \<open>ex_labels l\<close>
  the one \<^verbatim>\<open>WriteLabels\<close> stores for the entries \<open>l\<close>, both under the stand-ins.
  \<open>ex_delete\<close> is a Delete record (type 3, no feature bits) whose payload is the DER
  encoding of the sequence of the one integer 1. The labels are \<^verbatim>\<open>a\<close>, \<^verbatim>\<open>b\<close>, \<^verbatim>\<open>c\<close>.
  \<open>ex_flushed\<close> is the database after the labels of the id 1 have been set and written;
  in \<open>ex_dirty\<close> the labels of the id 2 have then been set and not yet written, so both
  ids have labels and only 2 is dirty.
\<close>

definition ex_header :: FileHeader where
  "ex_header = \<lparr>Magic = fileMagic, Version = 1, Reserved0 = 0, Reserved1 = 0, CreateTime = 0,
                 UpdateTime = 0, HavePtr = 0, Reserved2 = 0, Reserved3 = 0\<rparr>"

definition ex_db :: DB where
  "ex_db = \<lparr>labels = Map.empty, labelsChanged = [], haveMsgID = Map.empty,
            fd = \<lparr>content = put_FileHeader ex_header, offset = 40\<rparr>\<rparr>"

definition ex_body :: bytes where
  "ex_body = [0x68, 0x69]"

definition ex_message :: "int64 \<Rightarrow> stored" where
  "ex_message i = \<lparr>sType = MessageRecordType, sFeatures = FeatureCompressed OR FeatureHashed,
                   sBytes = encodeRecord demo (FeatureCompressed OR FeatureHashed) (le64 i @ ex_body)\<rparr>"

definition ex_labels :: "LabelsRecord \<Rightarrow> stored" where
  "ex_labels l = \<lparr>sType = LabelsRecordType, sFeatures = FeatureCompressed,
                  sBytes = encodeRecord demo FeatureCompressed
                             (of_nat (length l) # demo_put_entries l)\<rparr>"

definition ex_delete :: stored where
  "ex_delete = \<lparr>sType = DeleteRecordType, sFeatures = 0, sBytes = [0x30, 0x03, 0x02, 0x01, 0x01]\<rparr>"

definition ex_L1 :: LabelsRecord where
  "ex_L1 = [\<lparr>EntryMessageID = 1, EntryLabels = [[0x61]]\<rparr>]"

definition ex_L2 :: LabelsRecord where
  "ex_L2 = [\<lparr>EntryMessageID = 1, EntryLabels = [[0x62], [0x63]]\<rparr>]"

definition ex_env_known :: round_env where
  "ex_env_known = \<lparr>MsgIDSearch = (\<lambda>first last. Some []), range_order = []\<rparr>"

definition ex_env_new :: round_env where
  "ex_env_new = \<lparr>MsgIDSearch = (\<lambda>first last. Some [\<lparr>sUID = 5, sMsgID = 7, sLabels = [[0x61]]\<rparr>]),
                  range_order = [7]\<rparr>"

definition ex_db7 :: DB where
  "ex_db7 = \<lparr>labels = Map.empty, labelsChanged = [], haveMsgID = [7 \<mapsto> True],
          fd = \<lparr>content = archive ex_header [ex_message 7], offset = 40\<rparr>\<rparr>"

definition ex_stored :: bytes where
  "ex_stored = encodeRecord demo (FeatureCompressed OR FeatureHashed) ex_body"

definition ex_truncated :: bytes where
  "ex_truncated = archive ex_header [] @
     put_Header \<lparr>Type = MessageRecordType, FeatureBits = FeatureCompressed OR FeatureHashed,
                 Length = 40\<rparr> @ take 10 (sBytes (ex_message 7))"

definition ex_flushed :: DB where
  "ex_flushed = projr (WriteLabels demo [] (SetLabels 1 [[0x61]] ex_db))"

definition ex_dirty :: DB where
  "ex_dirty = SetLabels 2 [[0x62]] ex_flushed"

definition ex_st1 :: scan_state where
  "ex_st1 = projr (scan_round demo ex_env_known (findNewUIDs_init ex_db))"

definition ex_st2 :: scan_state where
  "ex_st2 = projr (scan_round demo ex_env_new ex_st1)"

definition ex_db9 :: DB where
  "ex_db9 = \<lparr>labels = Map.empty, labelsChanged = [], haveMsgID = [1 \<mapsto> True],
          fd = \<lparr>content = archive ex_header [ex_message 1, ex_delete], offset = 40\<rparr>\<rparr>"

section \<open>Lemmas\<close>

lemma le_word_Cons_ucast:
  fixes w :: "'a::len word"
  assumes "le_word bs = drop_bit 8 w"
  shows "le_word (ucast w # bs) = w"
  unfolding le_word.simps assms
proof (rule bit_word_eqI)
  fix n
  assume "n < LENGTH('a)"
  then show "bit (ucast (ucast w :: 8 word) OR push_bit 8 (drop_bit 8 w)) n = bit w n"
    by (cases "n < 8") (auto simp: bit_simps)
qed

lemma le_word_Cons_drop:
  fixes w :: "'a::len word"
  assumes "le_word bs = drop_bit (n + 8) w"
  shows "le_word (ucast (drop_bit n w) # bs) = drop_bit n w"
  by (rule le_word_Cons_ucast) (simp add: assms drop_bit_drop_bit add.commute)

lemma le_word_le16 [simp]: "le_word (le16 w) = w"
proof -
  have s1: "(le_word [ucast (drop_bit 8 w)] :: 16 word) = drop_bit 8 w"
    by (rule le_word_Cons_drop) simp
  show ?thesis
    unfolding le16_def by (rule le_word_Cons_ucast) (simp del: le_word.simps add: s1)
qed

lemma le_word_le32 [simp]: "le_word (le32 w) = w"
proof -
  have s3: "(le_word [ucast (drop_bit 24 w)] :: 32 word) = drop_bit 24 w"
    by (rule le_word_Cons_drop) simp
  have s2: "(le_word [ucast (drop_bit 16 w), ucast (drop_bit 24 w)] :: 32 word) = drop_bit 16 w"
    by (rule le_word_Cons_drop) (simp del: le_word.simps add: s3)
  have s1: "(le_word [ucast (drop_bit 8 w), ucast (drop_bit 16 w), ucast (drop_bit 24 w)] :: 32 word) = drop_bit 8 w"
    by (rule le_word_Cons_drop) (simp del: le_word.simps add: s2)
  show ?thesis
    unfolding le32_def by (rule le_word_Cons_ucast) (simp del: le_word.simps add: s1)
qed

lemma le_word_le64 [simp]: "le_word (le64 w) = w"
proof -
  have s7: "(le_word [ucast (drop_bit 56 w)] :: 64 word) = drop_bit 56 w"
    by (rule le_word_Cons_drop) simp
  have s6: "(le_word [ucast (drop_bit 48 w), ucast (drop_bit 56 w)] :: 64 word) = drop_bit 48 w"
    by (rule le_word_Cons_drop) (simp del: le_word.simps add: s7)
  have s5: "(le_word [ucast (drop_bit 40 w), ucast (drop_bit 48 w), ucast (drop_bit 56 w)] :: 64 word) = drop_bit 40 w"
    by (rule le_word_Cons_drop) (simp del: le_word.simps add: s6)
  have s4: "(le_word [ucast (drop_bit 32 w), ucast (drop_bit 40 w), ucast (drop_bit 48 w), ucast (drop_bit 56 w)] :: 64 word) = drop_bit 32 w"
    by (rule le_word_Cons_drop) (simp del: le_word.simps add: s5)
  have s3: "(le_word [ucast (drop_bit 24 w), ucast (drop_bit 32 w), ucast (drop_bit 40 w), ucast (drop_bit 48 w), ucast (drop_bit 56 w)] :: 64 word) = drop_bit 24 w"
    by (rule le_word_Cons_drop) (simp del: le_word.simps add: s4)
  have s2: "(le_word [ucast (drop_bit 16 w), ucast (drop_bit 24 w), ucast (drop_bit 32 w), ucast (drop_bit 40 w), ucast (drop_bit 48 w), ucast (drop_bit 56 w)] :: 64 word) = drop_bit 16 w"
    by (rule le_word_Cons_drop) (simp del: le_word.simps add: s3)
  have s1: "(le_word [ucast (drop_bit 8 w), ucast (drop_bit 16 w), ucast (drop_bit 24 w), ucast (drop_bit 32 w), ucast (drop_bit 40 w), ucast (drop_bit 48 w), ucast (drop_bit 56 w)] :: 64 word) = drop_bit 8 w"
    by (rule le_word_Cons_drop) (simp del: le_word.simps add: s2)
  show ?thesis
    unfolding le64_def by (rule le_word_Cons_ucast) (simp del: le_word.simps add: s1)
qed

lemma length_le16 [simp]: "length (le16 w) = 2"
  by (simp add: le16_def)

lemma length_le32 [simp]: "length (le32 w) = 4"
  by (simp add: le32_def)

lemma length_le64 [simp]: "length (le64 w) = 8"
  by (simp add: le64_def)

lemma length_put_Header [simp]: "length (put_Header h) = 8"
  by (simp add: put_Header_def)

lemma get_put_Header [simp]: "get_Header (put_Header h @ rest) = h"
  by (simp add: get_Header_def put_Header_def)

lemma get_put_Header' [simp]: "get_Header (put_Header h) = h"
  using get_put_Header[of h "[]"] by (simp del: get_put_Header)

lemma length_put_FileHeader [simp]: "length (put_FileHeader h) = 40"
  by (simp add: put_FileHeader_def)

lemma Magic_get_put_FileHeader [simp]: "Magic (get_FileHeader (put_FileHeader h @ rest)) = Magic h"
  by (simp add: get_FileHeader_def put_FileHeader_def)

lemma length_frame: "length (frame r) = 8 + length (sBytes r)"
  by (simp add: frame_def)

lemma frames_Nil [simp]: "frames [] = []"
  by (simp add: frames_def)

lemma frames_Cons [simp]: "frames (r # rs) = frame r @ frames rs"
  by (simp add: frames_def)

lemma frames_append [simp]: "frames (rs @ rs') = frames rs @ frames rs'"
  by (simp add: frames_def)

lemma binary_Read_Header_at:
  assumes "content f = pre @ put_Header h @ post" and "offset f = length pre"
  shows "binary_Read_Header f = Inr (h, f\<lparr>offset := length pre + 8\<rparr>)"
proof -
  have "put_Header h \<noteq> []" using length_put_Header[of h] by (auto simp del: length_put_Header)
  with assms show ?thesis
    by (simp add: binary_Read_Header_def io_ReadFull_def Let_def)
qed

lemma binary_Read_Header_at_end:
  assumes "length (content f) \<le> offset f"
  shows "binary_Read_Header f = Inl EOF"
  using assms by (simp add: binary_Read_Header_def io_ReadFull_def)

lemma File_Read_at:
  assumes "content f = pre @ bs @ post" and "offset f = length pre"
  shows "File_Read f (length bs) = Inr (bs, f\<lparr>offset := length pre + length bs\<rparr>)"
  using assms by (auto simp: File_Read_def)

lemma File_Read_at_end:
  assumes "length (content f) \<le> offset f" and "0 < n"
  shows "File_Read f n = Inl EOF"
  using assms by (simp add: File_Read_def)

lemma unat_of_nat_length:
  "n < 2 ^ 32 \<Longrightarrow> unat (of_nat n :: 32 word) = n"
  by (rule of_nat_inverse[OF refl]) simp

lemma nextRecord_frame:
  assumes c: "content f = pre @ frame r @ post" and o: "offset f = length pre"
    and l: "length (sBytes r) < 2 ^ 32"
  shows "nextRecord c t f =
     (if t \<noteq> AnyType \<and> sType r \<noteq> t
      then nextRecord c t (f\<lparr>offset := length pre + length (frame r)\<rparr>)
      else case recordValue c (sType r) (sFeatures r) (sBytes r) of
             Inl e \<Rightarrow> Inl e
           | Inr (Some v) \<Rightarrow> Inr (v, f\<lparr>offset := length pre + length (frame r)\<rparr>)
           | Inr None \<Rightarrow> nextRecord c t (f\<lparr>offset := length pre + length (frame r)\<rparr>))"
proof -
  let ?h = "\<lparr>Type = sType r, FeatureBits = sFeatures r, Length = of_nat (length (sBytes r))\<rparr>"
  let ?f1 = "f\<lparr>offset := length pre + 8\<rparr>"
  from c have c1: "content f = pre @ put_Header ?h @ (sBytes r @ post)"
    by (simp add: frame_def)
  have h: "binary_Read_Header f = Inr (?h, ?f1)"
    by (rule binary_Read_Header_at[OF c1 o])
  from c have c2: "content ?f1 = (pre @ put_Header ?h) @ sBytes r @ post"
    by (simp add: frame_def)
  have "File_Read ?f1 (length (sBytes r)) =
          Inr (sBytes r, ?f1\<lparr>offset := length (pre @ put_Header ?h) + length (sBytes r)\<rparr>)"
    by (rule File_Read_at[OF c2]) simp
  then have r: "File_Read ?f1 (length (sBytes r)) =
          Inr (sBytes r, f\<lparr>offset := length pre + length (frame r)\<rparr>)"
    by (simp add: length_frame)
  have s: "Seek_cur (length (sBytes r)) ?f1 = f\<lparr>offset := length pre + length (frame r)\<rparr>"
    by (simp add: Seek_cur_def length_frame)
  note u = unat_of_nat_length[OF l]
  show ?thesis
    by (subst nextRecord.simps) (auto simp add: h u r s)
qed

lemma decodeRecord_Inl: "decodeRecord c fb data = Inl e \<Longrightarrow> \<exists>p. e = Panic p"
  by (auto simp: decodeRecord_def decompress_def Let_def split: if_splits sum.splits option.splits)

lemma recordValue_Inl: "recordValue c t fb data = Inl e \<Longrightarrow> \<exists>p. e = Panic p"
  by (auto simp: recordValue_def split: if_splits sum.splits option.splits dest: decodeRecord_Inl)

lemma decode_all_Cons_Inr:
  "recordValue c (sType r) (sFeatures r) (sBytes r) = Inr ov \<Longrightarrow>
   decode_all c (r # rs) =
     (case decode_all c rs of Inl e \<Rightarrow> Inl e
      | Inr vs \<Rightarrow> Inr (case ov of None \<Rightarrow> vs | Some v \<Rightarrow> v # vs))"
  by simp

lemma Open_fold_Cons: "Open_fold (v # vs) db = Open_fold vs (Open_apply v db)"
  by (simp add: Open_fold_def)

lemma Open_apply_fd_update: "Open_apply v (db\<lparr>fd := f\<rparr>) = (Open_apply v db)\<lparr>fd := f\<rparr>"
  by (simp add: Open_apply_def split: record_value.splits)

lemma Open_fold_fd: "Open_fold vs (db\<lparr>fd := f\<rparr>) = (Open_fold vs db)\<lparr>fd := f\<rparr>"
  by (induction vs arbitrary: db) (simp_all add: Open_fold_def Open_apply_fd_update)

lemma Open_rewound_unfold:
  "Open_rewound c db =
     (case nextRecord c AnyType (fd db) of
        Inl e \<Rightarrow> if e = EOF then Inr (Rewind db) else Inl e
      | Inr (rec, f) \<Rightarrow> Open_rewound c (Open_apply rec (db\<lparr>fd := f\<rparr>)))"
  unfolding Open_rewound_def
  by (subst Open_loop.simps) (simp split: sum.splits)

lemma Rewind_offset [simp]: "Rewind (db\<lparr>fd := (fd db)\<lparr>offset := n\<rparr>\<rparr>) = Rewind db"
  by (simp add: Rewind_def Seek_set_def)

lemma Open_rewound_frames:
  assumes "content (fd db) = pre @ frames rs @ post" and "offset (fd db) = length pre"
    and "\<forall>r \<in> set rs. length (sBytes r) < 2 ^ 32"
  shows "Open_rewound c db =
     (case decode_all c rs of
        Inl e \<Rightarrow> Inl e
      | Inr vs \<Rightarrow>
          Open_rewound c ((Open_fold vs db)\<lparr>fd := (fd db)\<lparr>offset := length pre + length (frames rs)\<rparr>\<rparr>))"
  using assms
proof (induction rs arbitrary: db pre)
  case Nil
  then have "(fd db)\<lparr>offset := length pre\<rparr> = fd db" by simp
  then show ?case by (simp add: Open_fold_def)
next
  case (Cons r rs)
  let ?f = "(fd db)\<lparr>offset := length pre + length (frame r)\<rparr>"
  from Cons.prems have c: "content (fd db) = pre @ frame r @ (frames rs @ post)"
    and l: "length (sBytes r) < 2 ^ 32" by simp_all
  note n = nextRecord_frame[OF c Cons.prems(2) l, of c AnyType]
  have IH: "Open_rewound c d =
     (case decode_all c rs of
        Inl e \<Rightarrow> Inl e
      | Inr vs \<Rightarrow>
          Open_rewound c ((Open_fold vs d)\<lparr>fd := (fd d)\<lparr>offset := length (pre @ frame r) + length (frames rs)\<rparr>\<rparr>))"
    if "fd d = ?f" for d
    by (rule Cons.IH) (use that Cons.prems in simp_all)
  show ?case
  proof (cases "recordValue c (sType r) (sFeatures r) (sBytes r)")
    case (Inl e)
    from recordValue_Inl[OF Inl] have "e \<noteq> EOF" by auto
    with Inl n show ?thesis by (subst Open_rewound_unfold) simp
  next
    case (Inr ov)
    show ?thesis
    proof (cases ov)
      case None
      with Inr n have "nextRecord c AnyType (fd db) = nextRecord c AnyType ?f" by simp
      then have "Open_rewound c db = Open_rewound c (db\<lparr>fd := ?f\<rparr>)"
        by (subst Open_rewound_unfold, subst (2) Open_rewound_unfold)
           (simp split: sum.splits)
      also have "\<dots> = (case decode_all c rs of
        Inl e \<Rightarrow> Inl e
      | Inr vs \<Rightarrow>
          Open_rewound c ((Open_fold vs (db\<lparr>fd := ?f\<rparr>))\<lparr>fd := ?f\<lparr>offset := length (pre @ frame r) + length (frames rs)\<rparr>\<rparr>))"
        using IH[of "db\<lparr>fd := ?f\<rparr>"] by (simp cong: sum.case_cong)
      finally show ?thesis using Inr None
        by (simp add: Open_fold_fd add.assoc split: sum.splits)
    next
      case (Some v)
      with Inr n have "Open_rewound c db = Open_rewound c (Open_apply v (db\<lparr>fd := ?f\<rparr>))"
        by (subst Open_rewound_unfold) simp
      also have "\<dots> = (case decode_all c rs of
        Inl e \<Rightarrow> Inl e
      | Inr vs \<Rightarrow>
          Open_rewound c ((Open_fold vs (Open_apply v (db\<lparr>fd := ?f\<rparr>)))\<lparr>fd := ?f\<lparr>offset := length (pre @ frame r) + length (frames rs)\<rparr>\<rparr>))"
        using IH[of "Open_apply v (db\<lparr>fd := ?f\<rparr>)"] by (simp cong: sum.case_cong)
      finally show ?thesis using Inr Some
        by (simp add: Open_fold_fd Open_fold_Cons Open_apply_fd_update add.assoc split: sum.splits)
    qed
  qed
qed

lemma Open_existing:
  assumes "Magic h = fileMagic"
  shows "Open c now (put_FileHeader h @ rest) =
           Open_rewound c ((new_DB (put_FileHeader h @ rest))\<lparr>fd := \<lparr>content = put_FileHeader h @ rest, offset = 40\<rparr>\<rparr>)"
proof -
  have ne: "put_FileHeader h @ rest \<noteq> []"
    using length_put_FileHeader[of h] by (auto simp del: length_put_FileHeader)
  have ne': "put_FileHeader h \<noteq> []"
    using length_put_FileHeader[of h] by (auto simp del: length_put_FileHeader)
  then have r: "binary_Read_FileHeader \<lparr>content = put_FileHeader h @ rest, offset = 0\<rparr> =
      (get_FileHeader (put_FileHeader h), \<lparr>content = put_FileHeader h @ rest, offset = 40\<rparr>)"
    by (simp add: binary_Read_FileHeader_def io_ReadFull_def fileHeaderLength_def Let_def)
  have m: "Magic (get_FileHeader (put_FileHeader h)) = Magic h"
    using Magic_get_put_FileHeader[of h "[]"] by simp
  show ?thesis
    using ne' assms by (simp add: Open_def Let_def r m Open_rewound_def new_DB_def)
qed

lemma Open_rewound_at_end:
  assumes "length (content (fd db)) \<le> offset (fd db)"
  shows "Open_rewound c db = Inr (Rewind db)"
  by (subst Open_rewound_unfold, subst nextRecord.simps)
     (simp add: binary_Read_Header_at_end[OF assms])

lemma Open_rewound_header_only:
  assumes "content (fd db) = pre @ put_Header t" and "offset (fd db) = length pre"
    and "Length t \<noteq> 0"
  shows "Open_rewound c db = Inr (Rewind db)"
proof -
  from assms(1) have c: "content (fd db) = pre @ put_Header t @ []" by simp
  note h = binary_Read_Header_at[OF c assms(2)]
  from assms(3) have "0 < unat (Length t)" by (simp add: unat_gt_0)
  moreover have "length (content ((fd db)\<lparr>offset := length pre + 8\<rparr>)) \<le> offset ((fd db)\<lparr>offset := length pre + 8\<rparr>)"
    using assms(1) by simp
  ultimately have r: "File_Read ((fd db)\<lparr>offset := length pre + 8\<rparr>) (unat (Length t)) = Inl EOF"
    by (rule File_Read_at_end[rotated])
  show ?thesis
    by (subst Open_rewound_unfold, subst nextRecord.simps) (simp add: h r AnyType_def)
qed

lemma Open_archive_tail:
  assumes "Magic h = fileMagic" and "\<forall>r \<in> set rs. length (sBytes r) < 2 ^ 32"
  shows "Open c now (archive h rs @ tail) =
     (case decode_all c rs of
        Inl e \<Rightarrow> Inl e
      | Inr vs \<Rightarrow>
          Open_rewound c ((Open_fold vs (new_DB (archive h rs @ tail)))
                            \<lparr>fd := \<lparr>content = archive h rs @ tail, offset = length (archive h rs)\<rparr>\<rparr>))"
proof -
  let ?db = "(new_DB (archive h rs @ tail))\<lparr>fd := \<lparr>content = archive h rs @ tail, offset = 40\<rparr>\<rparr>"
  have "Open c now (archive h rs @ tail) = Open_rewound c ?db"
    using Open_existing[OF assms(1), of c now "frames rs @ tail"] by (simp add: archive_def)
  also have "\<dots> = (case decode_all c rs of
        Inl e \<Rightarrow> Inl e
      | Inr vs \<Rightarrow>
          Open_rewound c ((Open_fold vs ?db)\<lparr>fd := (fd ?db)\<lparr>offset := length (put_FileHeader h) + length (frames rs)\<rparr>\<rparr>))"
    by (rule Open_rewound_frames) (use assms(2) in \<open>simp_all add: archive_def\<close>)
  finally show ?thesis
    by (simp add: Open_fold_fd archive_def cong: sum.case_cong)
qed

lemma Open_archive:
  assumes "Magic h = fileMagic" and "\<forall>r \<in> set rs. length (sBytes r) < 2 ^ 32"
  shows "Open c now (archive h rs) =
     (case decode_all c rs of
        Inl e \<Rightarrow> Inl e
      | Inr vs \<Rightarrow>
          Inr ((Open_fold vs (new_DB (archive h rs)))
                 \<lparr>fd := \<lparr>content = archive h rs, offset = fileHeaderLength\<rparr>\<rparr>))"
  using Open_archive_tail[OF assms, of c now "[]"]
  by (simp add: Open_rewound_at_end Rewind_def Seek_set_def split: sum.splits)

lemma Open_archive_header_only:
  assumes "Magic h = fileMagic" and "\<forall>r \<in> set rs. length (sBytes r) < 2 ^ 32"
    and "Length t \<noteq> 0"
  shows "Open c now (archive h rs @ put_Header t) =
     (case decode_all c rs of
        Inl e \<Rightarrow> Inl e
      | Inr vs \<Rightarrow>
          Inr ((Open_fold vs (new_DB (archive h rs @ put_Header t)))
                 \<lparr>fd := \<lparr>content = archive h rs @ put_Header t, offset = fileHeaderLength\<rparr>\<rparr>))"
  using Open_archive_tail[OF assms(1,2), of c now "put_Header t"] assms(3)
  by (simp add: Open_rewound_header_only Rewind_def Seek_set_def split: sum.splits)

lemma Open_fold_new_DB:
  "labels (Open_fold vs (new_DB file)) = labels (Open_fold vs (new_DB file'))"
  "haveMsgID (Open_fold vs (new_DB file)) = haveMsgID (Open_fold vs (new_DB file'))"
  "labelsChanged (Open_fold vs (new_DB file)) = []"
proof -
  have "new_DB file = (new_DB file')\<lparr>fd := \<lparr>content = file, offset = 0\<rparr>\<rparr>"
    by (simp add: new_DB_def)
  then have e: "Open_fold vs (new_DB file) = (Open_fold vs (new_DB file'))\<lparr>fd := \<lparr>content = file, offset = 0\<rparr>\<rparr>"
    by (simp add: Open_fold_fd)
  show "labels (Open_fold vs (new_DB file)) = labels (Open_fold vs (new_DB file'))"
    and "haveMsgID (Open_fold vs (new_DB file)) = haveMsgID (Open_fold vs (new_DB file'))"
    by (simp_all add: e)
  have "labelsChanged (Open_fold vs d) = labelsChanged d" for d
    by (induction vs arbitrary: d) (simp_all add: Open_fold_def Open_apply_def split: record_value.splits)
  then show "labelsChanged (Open_fold vs (new_DB file)) = []"
    by (simp add: new_DB_def)
qed

lemma Open_fold_append: "Open_fold (vs @ ws) db = Open_fold ws (Open_fold vs db)"
  by (simp add: Open_fold_def)

lemma foldl_entries_other:
  "\<forall>e \<in> set es. EntryMessageID e \<noteq> i \<Longrightarrow>
   (foldl (\<lambda>m lrec. m(EntryMessageID lrec \<mapsto> bytesSliceToStrings (EntryLabels lrec))) m es) i = m i"
  by (induction es arbitrary: m) auto

lemma foldl_entries_last:
  assumes "\<forall>e' \<in> set es2. EntryMessageID e' \<noteq> EntryMessageID e"
  shows "(foldl (\<lambda>m lrec. m(EntryMessageID lrec \<mapsto> bytesSliceToStrings (EntryLabels lrec))) m
            (es1 @ [e] @ es2)) (EntryMessageID e) = Some (bytesSliceToStrings (EntryLabels e))"
  using assms by (simp add: foldl_entries_other)

lemma Open_apply_labels_other:
  "\<forall>e \<in> set (entries_of v). EntryMessageID e \<noteq> i \<Longrightarrow> labels (Open_apply v db) i = labels db i"
  by (cases v) (simp_all add: Open_apply_def entries_of_def foldl_entries_other)

lemma Open_fold_labels_other:
  "\<forall>v \<in> set vs. \<forall>e \<in> set (entries_of v). EntryMessageID e \<noteq> i \<Longrightarrow>
   labels (Open_fold vs db) i = labels db i"
proof (induction vs arbitrary: db)
  case Nil
  show ?case by (simp add: Open_fold_def)
next
  case (Cons v vs)
  then show ?case by (simp add: Open_fold_Cons Open_apply_labels_other)
qed

lemma Open_fold_last_writer:
  assumes "\<forall>e' \<in> set es2. EntryMessageID e' \<noteq> EntryMessageID e"
    and "\<forall>v \<in> set vs2. \<forall>e' \<in> set (entries_of v). EntryMessageID e' \<noteq> EntryMessageID e"
  shows "labels (Open_fold (vs1 @ [LabelsValue (es1 @ [e] @ es2)] @ vs2) db) (EntryMessageID e)
           = Some (bytesSliceToStrings (EntryLabels e))"
proof -
  have "labels (Open_fold (vs1 @ [LabelsValue (es1 @ [e] @ es2)] @ vs2) db) (EntryMessageID e)
      = labels (Open_apply (LabelsValue (es1 @ [e] @ es2)) (Open_fold vs1 db)) (EntryMessageID e)"
    by (simp add: Open_fold_append Open_fold_Cons Open_fold_labels_other[OF assms(2)] del: append_assoc)
  also have "\<dots> = Some (bytesSliceToStrings (EntryLabels e))"
    unfolding Open_apply_def using foldl_entries_last[OF assms(1)] by simp
  finally show ?thesis .
qed

lemma File_Write_at_end:
  "offset f = length (content f) \<Longrightarrow>
   File_Write bs f = f\<lparr>content := content f @ bs, offset := length (content f) + length bs\<rparr>"
  by (simp add: File_Write_def)

lemma writeRecord_appends:
  "writeRecord c t fb data f =
     Inr (f\<lparr>content := content f @ frame \<lparr>sType = t, sFeatures = fb, sBytes = encodeRecord c fb data\<rparr>,
            offset := length (content f) + (8 + length (encodeRecord c fb data))\<rparr>)"
  by (simp add: writeRecord_def Let_def Seek_end_def File_Write_at_end frame_def)

lemma WriteMessage_appends:
  assumes "asn1_Marshal_Message c \<lparr>MessageID = i, Data = body\<rparr> = Some bs"
  shows "WriteMessage c i body db =
     Inr (db\<lparr>fd := (fd db)\<lparr>content := content (fd db) @
                      frame \<lparr>sType = MessageRecordType, sFeatures = FeatureCompressed OR FeatureHashed,
                             sBytes = encodeRecord c (FeatureCompressed OR FeatureHashed) bs\<rparr>,
                    offset := length (content (fd db)) +
                      (8 + length (encodeRecord c (FeatureCompressed OR FeatureHashed) bs))\<rparr>\<rparr>)"
  using assms by (simp add: WriteMessage_def writeRecord_appends)

lemma recordValue_written_Message:
  assumes "asn1_Unmarshal_Message c bs = Some m"
    and "length (sha1_Sum c bs) = 20"
    and "gzip_ReadAll c (gzip_Write c bs) = Some bs"
  shows "recordValue c MessageRecordType fb (encodeRecord c fb bs) = Inr (Some (MessageValue m))"
  using assms
  by (simp add: recordValue_def decodeRecord_def encodeRecord_def hash_def compress_def decompress_def)

lemma decode_all_append:
  "decode_all c (rs @ rs') =
     (case decode_all c rs of Inl e \<Rightarrow> Inl e
      | Inr vs \<Rightarrow> (case decode_all c rs' of Inl e \<Rightarrow> Inl e | Inr vs' \<Rightarrow> Inr (vs @ vs')))"
  by (induction rs) (auto split: sum.splits option.splits)

lemma adjust_step_values: "s \<in> step_values \<Longrightarrow> adjust_step n s \<in> step_values"
  by (auto simp: adjust_step_def step_values_def)

lemma foldl_scan_msgid_fetch:
  "foldl scan_msgid (db, ch, n) msgids = (db', ch', n') \<Longrightarrow>
     n' + length (queue ch) = n + length (queue ch')"
proof (induction msgids arbitrary: db ch n)
  case Nil
  then show ?case by simp
next
  case (Cons m ms)
  obtain db1 ch1 n1 where s: "scan_msgid (db, ch, n) m = (db1, ch1, n1)"
    by (cases "scan_msgid (db, ch, n) m") auto
  with Cons.prems have "foldl scan_msgid (db1, ch1, n1) ms = (db', ch', n')" by simp
  from Cons.IH[OF this] have "n' + length (queue ch1) = n1 + length (queue ch')" .
  moreover from s have "n1 + length (queue ch) = n + length (queue ch1)"
    by (auto simp: scan_msgid_def Let_def split: if_splits)
  ultimately show ?case by simp
qed

lemma scan_round_step:
  assumes "scan_round c env st = Inr st'"
  shows "step st' = adjust_step (length (queue (out st')) - length (queue (out st))) (step st)"
proof -
  from assms obtain msgids where m: "MsgIDSearch env (beginv st) (beginv st + step st - 1) = Some msgids"
    by (auto simp: scan_round_def Let_def split: option.splits)
  obtain db1 out1 fetch where f: "foldl scan_msgid (scan_db st, out st, 0) msgids = (db1, out1, fetch)"
    by (cases "foldl scan_msgid (scan_db st, out st, 0) msgids") auto
  from assms m f have "step st' = adjust_step fetch (step st)" and "out st' = out1"
    by (auto simp: scan_round_def Let_def split: sum.splits)
  moreover from foldl_scan_msgid_fetch[OF f] have "fetch = length (queue out1) - length (queue (out st))"
    by simp
  ultimately show ?thesis by simp
qed

lemma findNewUIDs_loop_step_values:
  "findNewUIDs_loop c messages envs st = Inr st' \<Longrightarrow> step st \<in> step_values \<Longrightarrow> step st' \<in> step_values"
proof (induction envs arbitrary: st)
  case Nil
  then show ?case by (auto split: if_splits)
next
  case (Cons env envs)
  show ?case
  proof (cases "beginv st < messages")
    case True
    with Cons.prems obtain st1 where r: "scan_round c env st = Inr st1"
      and l: "findNewUIDs_loop c messages envs st1 = Inr st'"
      by (auto split: sum.splits)
    from scan_round_step[OF r] Cons.prems(2) have "step st1 \<in> step_values"
      by (simp add: adjust_step_values)
    from Cons.IH[OF l this] show ?thesis .
  next
    case False
    with Cons.prems show ?thesis by auto
  qed
qed

lemma fetchAndStore_loop_never_done:
  assumes "fetchAndStore_loop c GetMail msgids db = Some r"
  shows "\<exists>e. r = Inl e"
  by (rule fetchAndStore_loop.raw_induct[where P = "\<lambda>c G m d r. \<exists>e. r = Inl e", OF _ assms])
     (auto split: list.splits if_splits option.splits sum.splits dest: sym)

lemma fetchAndStore_loop_closed_drained:
  assumes "fetchAndStore_loop c GetMail msgids db = Some r"
  shows "\<not> (queue msgids = [] \<and> is_closed msgids)"
  by (rule fetchAndStore_loop.raw_induct[where P = "\<lambda>c G m d r. \<not> (queue m = [] \<and> is_closed m)", OF _ assms])
     (auto split: list.splits if_splits option.splits sum.splits)

lemma foldl_snoc_map: "foldl (\<lambda>acc x. acc @ [g x]) a xs = a @ map g xs"
  by (induction xs arbitrary: a) simp_all

lemma stringSliceToBytes_id [simp]: "stringSliceToBytes ss = ss"
  by (simp add: stringSliceToBytes_def foldl_snoc_map[where g = "\<lambda>s. s"])

lemma bytesSliceToStrings_id [simp]: "bytesSliceToStrings bs = bs"
  by (simp add: bytesSliceToStrings_def foldl_snoc_map[where g = "\<lambda>s. s"])

lemma set_range_keys: "set (range_keys order m) = fst ` set m"
  by (auto simp: range_keys_def)

lemma distinct_range_keys: "distinct (range_keys order m)"
  by (auto simp: range_keys_def)

lemma range_keys_any_order:
  assumes "distinct ks" and "set ks = fst ` set m"
  shows "range_keys ks m = ks"
proof -
  from assms(2) have a: "filter (\<lambda>k. k \<in> set (map fst m)) ks = ks" by auto
  from assms(2) have b: "filter (\<lambda>k. k \<notin> set ks) (remdups (map fst m)) = []" by auto
  show ?thesis
    unfolding range_keys_def distinct_remdups_id[OF assms(1)] a b by simp
qed

lemma set_map_assign: "fst ` set (map_assign k v m) = insert k (fst ` set m)"
  by (induction m) auto

lemma distinct_map_assign:
  "distinct (map fst m) \<Longrightarrow> distinct (map fst (map_assign k v m))"
proof (induction m)
  case Nil
  show ?case by simp
next
  case (Cons p ps)
  then show ?case
    using set_map_assign[of k v ps] by (auto simp: image_iff)
qed

lemma WriteLabels_lbls_map:
  "WriteLabels_lbls ks db =
     map (\<lambda>msgid. \<lparr>EntryMessageID = msgid, EntryLabels = stringSliceToBytes (Labels db msgid)\<rparr>)
         (range_keys ks (labelsChanged db))"
  unfolding WriteLabels_lbls_def Labels_def
  by (simp only: foldl_snoc_map) simp

lemma recordValue_written_Labels:
  assumes "asn1_Unmarshal_Labels c bs = Some l"
    and "gzip_ReadAll c (gzip_Write c bs) = Some bs"
  shows "recordValue c LabelsRecordType FeatureCompressed (encodeRecord c FeatureCompressed bs)
           = Inr (Some (LabelsValue l))"
  using assms
  by (simp add: recordValue_def decodeRecord_def encodeRecord_def compress_def decompress_def
      FeatureCompressed_def FeatureHashed_def LabelsRecordType_def MessageRecordType_def)

lemma Open_new:
  "Open c now [] =
     Inr \<lparr>labels = Map.empty, labelsChanged = [], haveMsgID = Map.empty,
          fd = \<lparr>content = put_FileHeader \<lparr>Magic = fileMagic, Version = 1, Reserved0 = 0,
                   Reserved1 = 0, CreateTime = now, UpdateTime = 0, HavePtr = 0, Reserved2 = 0,
                   Reserved3 = 0\<rparr>, offset = 40\<rparr>\<rparr>"
proof -
  let ?h = "\<lparr>Magic = fileMagic, Version = 1, Reserved0 = 0,
                   Reserved1 = 0, CreateTime = now, UpdateTime = 0, HavePtr = 0, Reserved2 = 0,
                   Reserved3 = 0\<rparr>"
  let ?db = "\<lparr>labels = Map.empty, labelsChanged = [], haveMsgID = Map.empty,
          fd = \<lparr>content = put_FileHeader ?h, offset = 40\<rparr>\<rparr>"
  have "Open_rewound c ?db = Inr (Rewind ?db)"
    by (rule Open_rewound_at_end) simp
  then show ?thesis
    by (simp add: Open_def Let_def File_Write_def Open_rewound_def Rewind_def Seek_set_def
        fileHeaderLength_def)
qed

lemma Open_demo_new: "Open demo 0 [] = Inr ex_db"
  by (simp add: Open_new ex_db_def ex_header_def)

lemma ex_header_Magic: "Magic ex_header = fileMagic"
  by (simp add: ex_header_def)

lemma ex_db_content: "content (fd ex_db) = archive ex_header []"
  by (simp add: ex_db_def archive_def)

lemma ex_message_small: "length (sBytes (ex_message i)) = 40"
  by (simp add: ex_message_def encodeRecord_def hash_def compress_def demo_def demo_sha1_def
      demo_gzip_Write_def FeatureCompressed_def FeatureHashed_def ex_body_def)

lemma ex_message_decodes:
  "recordValue demo (sType (ex_message i)) (sFeatures (ex_message i)) (sBytes (ex_message i))
     = Inr (Some (MessageValue \<lparr>MessageID = i, Data = ex_body\<rparr>))"
  unfolding ex_message_def stored.simps
  by (rule recordValue_written_Message)
     (simp_all add: demo_def demo_Unmarshal_Message_def demo_sha1_def demo_gzip_Write_def
        demo_gzip_ReadAll_def ex_body_def)

lemma Open_ex_message:
  "Open demo 0 (archive ex_header [ex_message i]) =
     Inr \<lparr>labels = Map.empty, labelsChanged = [], haveMsgID = [i \<mapsto> True],
          fd = \<lparr>content = archive ex_header [ex_message i], offset = 40\<rparr>\<rparr>"
proof -
  have l: "\<forall>r \<in> set [ex_message i]. length (sBytes r) < 2 ^ 32"
    by (simp add: ex_message_small)
  have d: "decode_all demo [ex_message i] = Inr [MessageValue \<lparr>MessageID = i, Data = ex_body\<rparr>]"
    by (simp add: ex_message_decodes)
  show ?thesis
    by (simp only: Open_archive[OF ex_header_Magic l] d)
       (simp add: Open_fold_def Open_apply_def new_DB_def fileHeaderLength_def)
qed

lemma ex_labels_decodes:
  assumes "demo_Marshal_Labels l = Some bs" and "demo_Unmarshal_Labels bs = Some l"
  shows "recordValue demo (sType (ex_labels l)) (sFeatures (ex_labels l)) (sBytes (ex_labels l))
     = Inr (Some (LabelsValue l))"
proof -
  from assms(1) have bs: "bs = of_nat (length l) # demo_put_entries l"
    by (auto simp: demo_Marshal_Labels_def split: if_splits)
  have "decodeRecord demo FeatureCompressed (encodeRecord demo FeatureCompressed bs) = Inr bs"
    by (simp add: decodeRecord_def encodeRecord_def compress_def decompress_def demo_def
        demo_gzip_Write_def demo_gzip_ReadAll_def FeatureCompressed_def FeatureHashed_def)
  with assms(2) show ?thesis
    by (simp add: ex_labels_def recordValue_def bs[symmetric] demo_def
        LabelsRecordType_def MessageRecordType_def)
qed

section \<open>The claims\<close>

text \<open>
  C1. For every payload \<open>p\<close> and every value \<open>f\<close> of the feature bits, decoding what
  \<^verbatim>\<open>writeRecord\<close> stores for \<open>p\<close> under \<open>f\<close> (the hash of the uncompressed payload
  first, then the payload, compressed when the bit is set) gives \<open>p\<close> back. The two
  hypotheses are what the libraries contribute: a SHA-1 sum has 20 bytes, and gzip reads
  back what it wrote.
\<close>

theorem decode_encode_roundtrip:
  assumes "length (sha1_Sum c p) = 20"
    and "gzip_ReadAll c (gzip_Write c p) = Some p"
  shows "decodeRecord c f (encodeRecord c f p) = Inr p"
  using assms
  by (simp add: decodeRecord_def encodeRecord_def hash_def compress_def decompress_def)

theorem decode_encode_roundtrip_witness:
  "length (sha1_Sum demo [0x68, 0x69]) = 20 \<and>
   gzip_ReadAll demo (gzip_Write demo [0x68, 0x69]) = Some [0x68, 0x69] \<and>
   decodeRecord demo (FeatureCompressed OR FeatureHashed)
     (encodeRecord demo (FeatureCompressed OR FeatureHashed) [0x68, 0x69]) = Inr [0x68, 0x69]"
proof -
  have h: "length (sha1_Sum demo [0x68, 0x69]) = 20"
    by (simp add: demo_def demo_sha1_def)
  have g: "gzip_ReadAll demo (gzip_Write demo [0x68, 0x69]) = Some [0x68, 0x69]"
    by (simp add: demo_def demo_gzip_Write_def demo_gzip_ReadAll_def)
  from h g decode_encode_roundtrip[OF h g, of "FeatureCompressed OR FeatureHashed"]
  show ?thesis by simp
qed

text \<open>
  C2, as amended. \<^verbatim>\<open>WriteMessage\<close> appends the record and leaves the index in memory as
  it is: after it has returned successfully, \<^verbatim>\<open>HaveUID\<close> of the id has the value it had
  before the call. The index learns the id when the archive is opened again: \<^verbatim>\<open>Open\<close>
  of the file as \<^verbatim>\<open>WriteMessage\<close> left it succeeds and \<^verbatim>\<open>HaveUID\<close> of the id is true.
  The file before the call is an archive whose records decode; the library hypotheses
  are those of C1 for the marshalled message, that the message unmarshals from what it
  was marshalled to, and that the stored bytes fit the 32-bit length field.
\<close>

theorem WriteMessage_index_after_reopen:
  assumes "Magic h = fileMagic"
    and "\<forall>r \<in> set rs. length (sBytes r) < 2 ^ 32"
    and "content (fd db) = archive h rs"
    and "decode_all c rs = Inr vs"
    and "asn1_Marshal_Message c \<lparr>MessageID = i, Data = body\<rparr> = Some bs"
    and "asn1_Unmarshal_Message c bs = Some \<lparr>MessageID = i, Data = body\<rparr>"
    and "length (sha1_Sum c bs) = 20"
    and "gzip_ReadAll c (gzip_Write c bs) = Some bs"
    and "length (encodeRecord c (FeatureCompressed OR FeatureHashed) bs) < 2 ^ 32"
  shows "\<exists>db'. WriteMessage c i body db = Inr db' \<and>
           HaveUID db' i = HaveUID db i \<and>
           (\<exists>db2. Open c now (content (fd db')) = Inr db2 \<and> HaveUID db2 i)"
proof -
  let ?r = "\<lparr>sType = MessageRecordType, sFeatures = FeatureCompressed OR FeatureHashed,
             sBytes = encodeRecord c (FeatureCompressed OR FeatureHashed) bs\<rparr>"
  let ?db' = "db\<lparr>fd := (fd db)\<lparr>content := content (fd db) @ frame ?r,
                    offset := length (content (fd db)) +
                      (8 + length (encodeRecord c (FeatureCompressed OR FeatureHashed) bs))\<rparr>\<rparr>"
  have w: "WriteMessage c i body db = Inr ?db'"
    by (rule WriteMessage_appends[OF assms(5)])
  have c': "content (fd ?db') = archive h (rs @ [?r])"
    using assms(3) by (simp add: archive_def)
  have l': "\<forall>r \<in> set (rs @ [?r]). length (sBytes r) < 2 ^ 32"
    using assms(2,9) by simp
  have "recordValue c (sType ?r) (sFeatures ?r) (sBytes ?r) = Inr (Some (MessageValue \<lparr>MessageID = i, Data = body\<rparr>))"
    using recordValue_written_Message[OF assms(6,7,8)] by simp
  then have d': "decode_all c (rs @ [?r]) = Inr (vs @ [MessageValue \<lparr>MessageID = i, Data = body\<rparr>])"
    using assms(4) by (simp add: decode_all_append)
  have "haveMsgID (Open_fold (vs @ [MessageValue \<lparr>MessageID = i, Data = body\<rparr>]) d) i = Some True" for d
    by (simp add: Open_fold_append Open_fold_def Open_apply_def)
  with Open_archive[OF assms(1) l', of c now] d'
  have "\<exists>db2. Open c now (archive h (rs @ [?r])) = Inr db2 \<and> HaveUID db2 i"
    by (simp add: HaveUID_def map_bool_def)
  with w c' show ?thesis
    by (simp add: HaveUID_def)
qed

theorem WriteMessage_index_after_reopen_witness:
  "\<exists>db'. WriteMessage demo 7 ex_body ex_db = Inr db' \<and>
           HaveUID db' 7 = HaveUID ex_db 7 \<and>
           (\<exists>db2. Open demo 0 (content (fd db')) = Inr db2 \<and> HaveUID db2 7)"
proof -
  have 2: "\<forall>r \<in> set ([]::stored list). length (sBytes r) < 2 ^ 32" by simp
  have 4: "decode_all demo [] = Inr []" by simp
  have 5: "asn1_Marshal_Message demo \<lparr>MessageID = 7, Data = ex_body\<rparr> = Some (le64 7 @ ex_body)"
    by (simp add: demo_def demo_Marshal_Message_def)
  have 6: "asn1_Unmarshal_Message demo (le64 7 @ ex_body) = Some \<lparr>MessageID = 7, Data = ex_body\<rparr>"
    by (simp add: demo_def demo_Unmarshal_Message_def)
  have 7: "length (sha1_Sum demo (le64 7 @ ex_body)) = 20"
    by (simp add: demo_def demo_sha1_def)
  have 8: "gzip_ReadAll demo (gzip_Write demo (le64 7 @ ex_body)) = Some (le64 7 @ ex_body)"
    by (simp add: demo_def demo_gzip_Write_def demo_gzip_ReadAll_def)
  have "length (encodeRecord demo (FeatureCompressed OR FeatureHashed) (le64 7 @ ex_body)) = 40"
    by code_simp
  then have 9: "length (encodeRecord demo (FeatureCompressed OR FeatureHashed) (le64 7 @ ex_body)) < 2 ^ 32"
    by simp
  show ?thesis
    by (rule WriteMessage_index_after_reopen[OF ex_header_Magic 2 ex_db_content 4 5 6 7 8 9])
qed

text \<open>
  C2 as stated fails: on a new archive \<^verbatim>\<open>WriteMessage\<close> for the id 7 returns
  successfully and \<^verbatim>\<open>HaveUID(7)\<close> is still false.
\<close>

theorem WriteMessage_HaveUID_counterexample:
  "Open demo 0 [] = Inr ex_db \<and>
   \<not> isl (WriteMessage demo 7 ex_body ex_db) \<and>
   \<not> HaveUID (projr (WriteMessage demo 7 ex_body ex_db)) 7"
proof -
  have "\<not> isl (WriteMessage demo 7 ex_body ex_db) \<and>
        \<not> HaveUID (projr (WriteMessage demo 7 ex_body ex_db)) 7"
    by code_simp
  with Open_demo_new show ?thesis by simp
qed

text \<open>
  C3, as amended. \<^verbatim>\<open>WriteMessage\<close> makes no duplicate check: for every database,
  whether its index knows the id or not, it appends one more Message record for the id
  and returns successfully, and the index is unchanged. Keeping ids unique is left to
  the caller (\<^verbatim>\<open>findNewUIDs\<close> sends an id to the workers only when \<^verbatim>\<open>HaveUID\<close> is false).
\<close>

theorem WriteMessage_no_duplicate_check:
  assumes "asn1_Marshal_Message c \<lparr>MessageID = i, Data = body\<rparr> = Some bs"
  shows "\<exists>db'. WriteMessage c i body db = Inr db' \<and>
           content (fd db') = content (fd db) @
              frame \<lparr>sType = MessageRecordType, sFeatures = FeatureCompressed OR FeatureHashed,
                     sBytes = encodeRecord c (FeatureCompressed OR FeatureHashed) bs\<rparr> \<and>
           haveMsgID db' = haveMsgID db \<and> labels db' = labels db \<and>
           labelsChanged db' = labelsChanged db"
proof -
  let ?stored = "encodeRecord c (FeatureCompressed OR FeatureHashed) bs"
  let ?f = "(fd db)\<lparr>content := content (fd db) @
                frame \<lparr>sType = MessageRecordType, sFeatures = FeatureCompressed OR FeatureHashed,
                       sBytes = ?stored\<rparr>,
              offset := length (content (fd db)) + (8 + length ?stored)\<rparr>"
  have "writeRecord c MessageRecordType (FeatureCompressed OR FeatureHashed) bs (fd db) = Inr ?f"
    by (rule writeRecord_appends)
  with assms have w: "WriteMessage c i body db = Inr (db\<lparr>fd := ?f\<rparr>)"
    by (simp add: WriteMessage_def)
  have "content (fd (db\<lparr>fd := ?f\<rparr>)) = content (fd db) @
          frame \<lparr>sType = MessageRecordType, sFeatures = FeatureCompressed OR FeatureHashed,
                 sBytes = ?stored\<rparr>"
    by simp
  moreover have "haveMsgID (db\<lparr>fd := ?f\<rparr>) = haveMsgID db"
    and "labels (db\<lparr>fd := ?f\<rparr>) = labels db"
    and "labelsChanged (db\<lparr>fd := ?f\<rparr>) = labelsChanged db"
    by simp_all
  ultimately show ?thesis using w by blast
qed

theorem WriteMessage_no_duplicate_check_witness:
  "HaveUID ex_db7 7 \<and>
   asn1_Marshal_Message demo \<lparr>MessageID = 7, Data = ex_body\<rparr> = Some (le64 7 @ ex_body) \<and>
   (\<exists>db'. WriteMessage demo 7 ex_body ex_db7 = Inr db' \<and>
           content (fd db') = content (fd ex_db7) @
              frame \<lparr>sType = MessageRecordType, sFeatures = FeatureCompressed OR FeatureHashed,
                     sBytes = encodeRecord demo (FeatureCompressed OR FeatureHashed) (le64 7 @ ex_body)\<rparr> \<and>
           haveMsgID db' = haveMsgID ex_db7 \<and> labels db' = labels ex_db7 \<and>
           labelsChanged db' = labelsChanged ex_db7)"
proof -
  have k: "HaveUID ex_db7 7"
    by (simp add: ex_db7_def HaveUID_def map_bool_def)
  have m: "asn1_Marshal_Message demo \<lparr>MessageID = 7, Data = ex_body\<rparr> = Some (le64 7 @ ex_body)"
    by (simp add: demo_def demo_Marshal_Message_def)
  from k m WriteMessage_no_duplicate_check[OF m, of ex_db7] show ?thesis by blast
qed

text \<open>
  C3 as stated fails: the archive holds a Message record for 7 and its index knows 7;
  \<^verbatim>\<open>WriteMessage\<close> for 7 returns successfully and the file holds the record twice.
\<close>

theorem WriteMessage_duplicate_counterexample:
  "Open demo 0 (archive ex_header [ex_message 7]) = Inr ex_db7 \<and>
   HaveUID ex_db7 7 \<and>
   \<not> isl (WriteMessage demo 7 ex_body ex_db7) \<and>
   content (fd (projr (WriteMessage demo 7 ex_body ex_db7)))
     = archive ex_header [ex_message 7, ex_message 7]"
proof -
  have m: "asn1_Marshal_Message demo \<lparr>MessageID = 7, Data = ex_body\<rparr> = Some (le64 7 @ ex_body)"
    by (simp add: demo_def demo_Marshal_Message_def)
  have o: "Open demo 0 (archive ex_header [ex_message 7]) = Inr ex_db7"
    by (simp only: Open_ex_message ex_db7_def)
  have k: "HaveUID ex_db7 7"
    by (simp add: ex_db7_def HaveUID_def map_bool_def)
  have w: "\<not> isl (WriteMessage demo 7 ex_body ex_db7)"
    by (simp add: WriteMessage_appends[OF m])
  have c: "content (fd (projr (WriteMessage demo 7 ex_body ex_db7)))
     = archive ex_header [ex_message 7, ex_message 7]"
    by (simp add: WriteMessage_appends[OF m] ex_db7_def archive_def ex_message_def)
  from o k w c show ?thesis by blast
qed

text \<open>
  C4, as amended. For every record with the Hashed bit, decoding returns a payload only
  when the stored bytes have the 20-byte prefix and the SHA-1 sum of the payload (after
  decompression) equals that prefix; every failure is a panic; when the payload is
  obtained and its sum differs from the prefix the panic is the hash failure. So a
  change of the hash prefix of a record that \<^verbatim>\<open>writeRecord\<close> stored is always detected.
  A change of the bytes after the prefix is detected when it changes the sum of the
  payload read back or makes decompression fail; the hash does not cover bytes of the
  compressed stream that the decompressor ignores.
\<close>

theorem hashed_record_checked:
  assumes "f AND FeatureHashed \<noteq> 0"
  shows "(\<forall>d. decodeRecord c f s = Inr d \<longrightarrow> 20 \<le> length s \<and> sha1_Sum c d = take 20 s) \<and>
         (\<forall>e. decodeRecord c f s = Inl e \<longrightarrow> (\<exists>p. e = Panic p)) \<and>
         (\<forall>d. 20 \<le> length s \<and>
               (if f AND FeatureCompressed \<noteq> 0 then gzip_ReadAll c (drop 20 s) = Some d
                else drop 20 s = d) \<and>
               sha1_Sum c d \<noteq> take 20 s
               \<longrightarrow> decodeRecord c f s = Inl (Panic HashFailure)) \<and>
         (\<forall>p h'. length (sha1_Sum c p) = 20 \<and> gzip_ReadAll c (gzip_Write c p) = Some p \<and>
                 length h' = 20 \<and> h' \<noteq> sha1_Sum c p
               \<longrightarrow> decodeRecord c f (h' @ drop 20 (encodeRecord c f p)) = Inl (Panic HashFailure))"
proof (intro conjI allI impI)
  fix d assume "decodeRecord c f s = Inr d"
  with assms show "20 \<le> length s" and "sha1_Sum c d = take 20 s"
    by (auto simp: decodeRecord_def hash_def Let_def split: if_splits sum.splits)
next
  fix e assume "decodeRecord c f s = Inl e"
  then show "\<exists>p. e = Panic p" by (rule decodeRecord_Inl)
next
  fix d
  assume "20 \<le> length s \<and>
               (if f AND FeatureCompressed \<noteq> 0 then gzip_ReadAll c (drop 20 s) = Some d
                else drop 20 s = d) \<and>
               sha1_Sum c d \<noteq> take 20 s"
  with assms show "decodeRecord c f s = Inl (Panic HashFailure)"
    by (auto simp: decodeRecord_def hash_def decompress_def Let_def split: if_splits)
next
  fix p h'
  assume "length (sha1_Sum c p) = 20 \<and> gzip_ReadAll c (gzip_Write c p) = Some p \<and>
                 length h' = 20 \<and> h' \<noteq> sha1_Sum c p"
  with assms show "decodeRecord c f (h' @ drop 20 (encodeRecord c f p)) = Inl (Panic HashFailure)"
    by (auto simp: decodeRecord_def encodeRecord_def hash_def compress_def decompress_def Let_def)
qed

theorem hashed_record_checked_witness:
  "(FeatureCompressed OR FeatureHashed) AND FeatureHashed \<noteq> 0 \<and>
   sha1_Sum demo ex_body \<noteq> replicate 20 0 \<and>
   decodeRecord demo (FeatureCompressed OR FeatureHashed)
      (replicate 20 0 @ drop 20 ex_stored) = Inl (Panic HashFailure) \<and>
   decodeRecord demo (FeatureCompressed OR FeatureHashed) ex_stored = Inr ex_body \<and>
   sha1_Sum demo ex_body = take 20 ex_stored"
proof -
  have f: "(FeatureCompressed OR FeatureHashed) AND FeatureHashed \<noteq> 0"
    by (simp add: FeatureCompressed_def FeatureHashed_def)
  have a: "length (sha1_Sum demo ex_body) = 20 \<and>
           gzip_ReadAll demo (gzip_Write demo ex_body) = Some ex_body \<and>
           length (replicate 20 (0::byte)) = 20 \<and> replicate 20 0 \<noteq> sha1_Sum demo ex_body"
    by code_simp
  have d: "decodeRecord demo (FeatureCompressed OR FeatureHashed) ex_stored = Inr ex_body"
    by code_simp
  note t = hashed_record_checked[OF f, of demo]
  from t[of ex_stored] d have h: "sha1_Sum demo ex_body = take 20 ex_stored" by blast
  from t[of "[]"] a
  have "decodeRecord demo (FeatureCompressed OR FeatureHashed)
      (replicate 20 0 @ drop 20 (encodeRecord demo (FeatureCompressed OR FeatureHashed) ex_body))
        = Inl (Panic HashFailure)" by blast
  then have p: "decodeRecord demo (FeatureCompressed OR FeatureHashed)
      (replicate 20 0 @ drop 20 ex_stored) = Inl (Panic HashFailure)"
    by (simp only: ex_stored_def)
  from a have n: "sha1_Sum demo ex_body \<noteq> replicate 20 0" by metis
  from f n p d h show ?thesis by blast
qed

text \<open>
  C4 as stated fails where the decompressor ignores a stored byte. The stored bytes of
  the example are the 20-byte sum and a compressed stream whose tenth byte is the
  operating-system byte of the gzip member header (\<open>0xff\<close>, ``unknown''), which gzip
  readers do not examine; changing it to 0 gives other stored bytes of the same length
  that decode to the same payload without any error.
\<close>

theorem tamper_counterexample:
  "ex_stored ! 29 = 0xff \<and>
   length (ex_stored[29 := 0]) = length ex_stored \<and>
   ex_stored[29 := 0] \<noteq> ex_stored \<and>
   decodeRecord demo (FeatureCompressed OR FeatureHashed) (ex_stored[29 := 0]) = Inr ex_body"
  by code_simp

text \<open>
  C5, as amended. When the file ends right after a complete record header that declares
  a length other than 0 (no byte of the payload was written), \<^verbatim>\<open>Open\<close> succeeds and
  builds the index of the archive without that header: the read of the payload returns
  \<^verbatim>\<open>io.EOF\<close>, which ends the replay like the end of the file.
\<close>

theorem truncated_tail_header_only:
  assumes "Magic h = fileMagic"
    and "\<forall>r \<in> set rs. length (sBytes r) < 2 ^ 32"
    and "Length t \<noteq> 0"
    and "Open c now (archive h rs) = Inr db"
  shows "\<exists>db'. Open c now (archive h rs @ put_Header t) = Inr db' \<and>
               haveMsgID db' = haveMsgID db \<and> labels db' = labels db \<and>
               labelsChanged db' = labelsChanged db"
proof -
  from assms(4) Open_archive[OF assms(1,2), of c now] obtain vs where
    vs: "decode_all c rs = Inr vs"
    and db: "db = (Open_fold vs (new_DB (archive h rs)))
                 \<lparr>fd := \<lparr>content = archive h rs, offset = fileHeaderLength\<rparr>\<rparr>"
    by (auto split: sum.splits)
  from Open_archive_header_only[OF assms(1,2,3), of c now] vs db show ?thesis
    by (simp add: Open_fold_new_DB(3))
       (metis Open_fold_new_DB(1) Open_fold_new_DB(2))
qed

theorem truncated_tail_header_only_witness:
  "Magic ex_header = fileMagic \<and>
   Length \<lparr>Type = MessageRecordType, FeatureBits = FeatureCompressed OR FeatureHashed, Length = 40\<rparr> \<noteq> 0 \<and>
   Open demo 0 (archive ex_header [ex_message 7]) = Inr ex_db7 \<and>
   (\<exists>db'. Open demo 0 (archive ex_header [ex_message 7] @
               put_Header \<lparr>Type = MessageRecordType, FeatureBits = FeatureCompressed OR FeatureHashed,
                           Length = 40\<rparr>) = Inr db' \<and>
               haveMsgID db' = haveMsgID ex_db7 \<and> labels db' = labels ex_db7 \<and>
               labelsChanged db' = labelsChanged ex_db7)"
proof -
  have l: "\<forall>r \<in> set [ex_message 7]. length (sBytes r) < 2 ^ 32"
    by (simp add: ex_message_small)
  have t: "Length \<lparr>Type = MessageRecordType, FeatureBits = FeatureCompressed OR FeatureHashed, Length = 40\<rparr> \<noteq> 0"
    by simp
  have o: "Open demo 0 (archive ex_header [ex_message 7]) = Inr ex_db7"
    by (simp add: Open_ex_message ex_db7_def)
  from truncated_tail_header_only[OF ex_header_Magic l t o] ex_header_Magic t o
  show ?thesis by blast
qed

text \<open>
  C5 as stated fails when part of the payload is there. The example is a new archive
  followed by the first 18 bytes of the frame of a Message record (the header, which
  declares 40 bytes, and 10 bytes of the hash). \<^verbatim>\<open>Read\<close> returns the 10 bytes with a nil
  error, the rest of the buffer stays zero, the bytes after the 20-byte prefix are no
  gzip stream, and \<^verbatim>\<open>Open\<close> panics, while it succeeds on the archive without the tail.
\<close>

theorem truncated_tail_counterexample:
  "length (sBytes (ex_message 7)) = 40 \<and>
   ex_truncated = take (length ex_truncated) (archive ex_header [ex_message 7]) \<and>
   length ex_truncated = 58 \<and>
   Open demo 0 ex_truncated = Inl (Panic GzipError) \<and>
   \<not> isl (Open demo 0 (archive ex_header []))"
  by code_simp

text \<open>
  C6. Replay is last-writer-wins for labels. Let an archive consist of records that
  decode, among them a labels record with an entry \<open>e\<close>, such that no later entry of
  that record and no later labels record mentions the id of \<open>e\<close>. Then \<^verbatim>\<open>Open\<close> succeeds
  and the labels of that id in the index are those of \<open>e\<close>, whatever earlier records
  say. The witness is the archive with \<open>L1 = {1:[a]}\<close> and then \<open>L2 = {1:[b,c]}\<close>,
  which is the file that two rounds of \<^verbatim>\<open>SetLabels\<close> and \<^verbatim>\<open>WriteLabels\<close> leave.
\<close>

theorem last_writer_wins:
  assumes "Magic h = fileMagic"
    and "\<forall>r \<in> set rs. length (sBytes r) < 2 ^ 32"
    and "decode_all c rs = Inr (vs1 @ [LabelsValue (es1 @ [e] @ es2)] @ vs2)"
    and "\<forall>e' \<in> set es2. EntryMessageID e' \<noteq> EntryMessageID e"
    and "\<forall>v \<in> set vs2. \<forall>e' \<in> set (entries_of v). EntryMessageID e' \<noteq> EntryMessageID e"
  shows "\<exists>db. Open c now (archive h rs) = Inr db \<and>
              Labels db (EntryMessageID e) = bytesSliceToStrings (EntryLabels e)"
  using Open_archive[OF assms(1,2), of c now] assms(3) Open_fold_last_writer[OF assms(4,5)]
  by (simp add: Labels_def map_slice_def)

theorem last_writer_wins_witness:
  "content (fd (projr (WriteLabels demo [1] (SetLabels 1 [[0x62], [0x63]]
       (projr (WriteLabels demo [1] (SetLabels 1 [[0x61]] ex_db)))))))
     = archive ex_header [ex_labels ex_L1, ex_labels ex_L2] \<and>
   Magic ex_header = fileMagic \<and>
   decode_all demo [ex_labels ex_L1, ex_labels ex_L2] = Inr [LabelsValue ex_L1, LabelsValue ex_L2] \<and>
   (\<exists>db. Open demo 0 (archive ex_header [ex_labels ex_L1, ex_labels ex_L2]) = Inr db \<and>
         Labels db 1 = [[0x62], [0x63]])"
proof -
  let ?e = "\<lparr>EntryMessageID = 1, EntryLabels = [[0x62], [0x63]]\<rparr>"
  have l: "\<forall>r \<in> set [ex_labels ex_L1, ex_labels ex_L2]. length (sBytes r) < 2 ^ 32"
    by (simp add: ex_labels_def ex_L1_def ex_L2_def encodeRecord_def compress_def demo_def
        demo_gzip_Write_def FeatureCompressed_def FeatureHashed_def)
  have d1: "recordValue demo (sType (ex_labels ex_L1)) (sFeatures (ex_labels ex_L1))
              (sBytes (ex_labels ex_L1)) = Inr (Some (LabelsValue ex_L1))"
    by (rule ex_labels_decodes[where bs = "the (demo_Marshal_Labels ex_L1)"]; code_simp)
  have d2: "recordValue demo (sType (ex_labels ex_L2)) (sFeatures (ex_labels ex_L2))
              (sBytes (ex_labels ex_L2)) = Inr (Some (LabelsValue ex_L2))"
    by (rule ex_labels_decodes[where bs = "the (demo_Marshal_Labels ex_L2)"]; code_simp)
  have d: "decode_all demo [ex_labels ex_L1, ex_labels ex_L2] = Inr [LabelsValue ex_L1, LabelsValue ex_L2]"
    by (simp add: d1 d2)
  then have d': "decode_all demo [ex_labels ex_L1, ex_labels ex_L2]
      = Inr ([LabelsValue ex_L1] @ [LabelsValue ([] @ [?e] @ [])] @ [])"
    by (simp add: ex_L2_def)
  have "\<exists>db. Open demo 0 (archive ex_header [ex_labels ex_L1, ex_labels ex_L2]) = Inr db \<and>
         Labels db (EntryMessageID ?e) = bytesSliceToStrings (EntryLabels ?e)"
    by (rule last_writer_wins[OF ex_header_Magic l d']) simp_all
  moreover have "content (fd (projr (WriteLabels demo [1] (SetLabels 1 [[0x62], [0x63]]
       (projr (WriteLabels demo [1] (SetLabels 1 [[0x61]] ex_db)))))))
     = archive ex_header [ex_labels ex_L1, ex_labels ex_L2]"
    by code_simp
  ultimately show ?thesis using ex_header_Magic d by simp
qed

text \<open>
  C7. The window size starts at 100. In every state \<open>st\<close> that the scan loop reaches
  after any number of rounds it is between 100 and 3200, and for the round that follows
  from \<open>st\<close>: when the round sent no new message and the size is below 3200 the size
  doubles, when it sent at least one and the size is above 100 the size halves (the
  unsigned values show that nothing wraps).
\<close>

theorem window_bounds:
  assumes "findNewUIDs_loop c messages envs (findNewUIDs_init db) = Inr st"
  shows "step (findNewUIDs_init db) = 100 \<and> 100 \<le> step st \<and> step st \<le> 3200 \<and>
         (\<forall>env st'. scan_round c env st = Inr st' \<longrightarrow>
            (length (queue (out st')) = length (queue (out st)) \<and> step st < 3200
               \<longrightarrow> step st' = 2 * step st \<and> unat (step st') = 2 * unat (step st)) \<and>
            (length (queue (out st')) > length (queue (out st)) \<and> step st > 100
               \<longrightarrow> step st' = step st div 2 \<and> unat (step st') = unat (step st) div 2))"
proof -
  have "step (findNewUIDs_init db) \<in> step_values"
    by (simp add: findNewUIDs_init_def step_values_def)
  from findNewUIDs_loop_step_values[OF assms this] have sv: "step st \<in> step_values" .
  then have b: "100 \<le> step st \<and> step st \<le> 3200"
    by (auto simp: step_values_def)
  have "\<And>env st'. scan_round c env st = Inr st' \<Longrightarrow>
            (length (queue (out st')) = length (queue (out st)) \<and> step st < 3200
               \<longrightarrow> step st' = 2 * step st \<and> unat (step st') = 2 * unat (step st)) \<and>
            (length (queue (out st')) > length (queue (out st)) \<and> step st > 100
               \<longrightarrow> step st' = step st div 2 \<and> unat (step st') = unat (step st) div 2)"
  proof -
    fix env st'
    assume "scan_round c env st = Inr st'"
    from scan_round_step[OF this] sv show "?thesis env st'"
      by (auto simp: adjust_step_def step_values_def)
  qed
  moreover have "step (findNewUIDs_init db) = 100"
    by (simp add: findNewUIDs_init_def)
  ultimately show ?thesis using b by blast
qed

theorem window_bounds_witness:
  "findNewUIDs_loop demo 500 [ex_env_known] (findNewUIDs_init ex_db) = Inr ex_st1 \<and>
   scan_round demo ex_env_new ex_st1 = Inr ex_st2 \<and>
   length (queue (out ex_st1)) = length (queue (out (findNewUIDs_init ex_db))) \<and>
   length (queue (out ex_st2)) > length (queue (out ex_st1)) \<and>
   step (findNewUIDs_init ex_db) = 100 \<and> step ex_st1 = 200 \<and> step ex_st2 = 100"
proof -
  have a': "findNewUIDs_loop demo 500 [] (findNewUIDs_init ex_db) = Inr (findNewUIDs_init ex_db)"
    by (simp add: findNewUIDs_init_def)
  have "\<not> isl (scan_round demo ex_env_known (findNewUIDs_init ex_db))" by code_simp
  then have r1: "scan_round demo ex_env_known (findNewUIDs_init ex_db) = Inr ex_st1"
    by (simp add: ex_st1_def)
  have "beginv ex_st1 < 500" unfolding ex_st1_def by code_simp
  with r1 have b': "findNewUIDs_loop demo 500 [ex_env_known] (findNewUIDs_init ex_db) = Inr ex_st1"
    by (simp add: findNewUIDs_init_def)
  have "\<not> isl (scan_round demo ex_env_new ex_st1)" unfolding ex_st1_def by code_simp
  then have r2: "scan_round demo ex_env_new ex_st1 = Inr ex_st2"
    by (simp add: ex_st2_def)
  have q1: "length (queue (out ex_st1)) = length (queue (out (findNewUIDs_init ex_db)))"
    unfolding ex_st1_def by code_simp
  have q2: "length (queue (out ex_st2)) > length (queue (out ex_st1))"
    unfolding ex_st2_def ex_st1_def by code_simp
  from window_bounds[OF a'] have s0: "step (findNewUIDs_init ex_db) = 100" by blast
  have lt: "step (findNewUIDs_init ex_db) < 3200" by (simp add: s0)
  from window_bounds[OF a'] r1 q1 lt have "step ex_st1 = 2 * step (findNewUIDs_init ex_db)"
    by blast
  then have s1: "step ex_st1 = 200" by (simp add: s0)
  have gt: "100 < step ex_st1" by (simp add: s1)
  from window_bounds[OF b'] r2 q2 gt have "step ex_st2 = step ex_st1 div 2"
    by blast
  then have s2: "step ex_st2 = 100" by (simp add: s1)
  from b' r2 q1 q2 s0 s1 s2 show ?thesis by simp
qed

text \<open>
  C8 fails on the code. On a channel that is closed and drained the loop of a worker
  never ends: \<^verbatim>\<open>break\<close> leaves the \<^verbatim>\<open>select\<close>, not the \<^verbatim>\<open>for\<close>. The worker therefore
  never reaches \<^verbatim>\<open>wg.Done()\<close>, and \<^verbatim>\<open>wg.Wait()\<close> in \<^verbatim>\<open>main\<close> does not return.
\<close>

theorem fetchAndStore_loop_never_returns:
  "fetchAndStore_loop c GetMail \<lparr>queue = [], is_closed = True\<rparr> db = None"
proof (cases "fetchAndStore_loop c GetMail \<lparr>queue = [], is_closed = True\<rparr> db")
  case None
  then show ?thesis .
next
  case (Some r)
  from fetchAndStore_loop_closed_drained[OF this] show ?thesis by simp
qed

text \<open>
  C9 fails on the code. The archive holds a Message record for the id 1 and then a
  Delete record that lists 1. \<^verbatim>\<open>Open\<close> and \<^verbatim>\<open>mbox\<close> have no case for records of type
  3: the index still knows 1, \<^verbatim>\<open>Size\<close> counts it, and \<^verbatim>\<open>mbox\<close> writes its unit.
\<close>

theorem Delete_record_ignored:
  "Open demo 0 (archive ex_header [ex_message 1, ex_delete]) = Inr ex_db9 \<and>
   HaveUID ex_db9 1 \<and> Size ex_db9 = 1 \<and>
   mbox demo ex_db9 = Inr [\<lparr>unit_labels = [], unit_msgid = 1, unit_data = ex_body\<rparr>]"
proof -
  have l: "\<forall>r \<in> set [ex_message 1, ex_delete]. length (sBytes r) < 2 ^ 32"
    by (simp add: ex_message_small ex_delete_def)
  have "recordValue demo (sType ex_delete) (sFeatures ex_delete) (sBytes ex_delete) = Inr None"
    by code_simp
  then have d: "decode_all demo [ex_message 1, ex_delete] = Inr [MessageValue \<lparr>MessageID = 1, Data = ex_body\<rparr>]"
    by (simp add: ex_message_decodes)
  have o: "Open demo 0 (archive ex_header [ex_message 1, ex_delete]) = Inr ex_db9"
    by (simp only: Open_archive[OF ex_header_Magic l] d)
       (simp add: Open_fold_def Open_apply_def new_DB_def fileHeaderLength_def ex_db9_def)
  have k: "HaveUID ex_db9 1 \<and> Size ex_db9 = 1"
    by (simp add: ex_db9_def HaveUID_def map_bool_def Size_def)
  have m: "mbox demo ex_db9 = Inr [\<lparr>unit_labels = [], unit_msgid = 1, unit_data = ex_body\<rparr>]"
    by code_simp
  from o k m show ?thesis by simp
qed

text \<open>
  C10. Whatever order the runtime chooses (\<open>ks\<close>), \<^verbatim>\<open>WriteLabels\<close> appends exactly one
  Labels record (type 2, Compressed): the frame of the compressed marshalling of the
  entries its loop builds. These entries are one for each id that is marked dirty (a
  key of \<^verbatim>\<open>labelsChanged\<close>) and none for any other id, each with the labels the index
  holds for its id; decoding the appended record gives these entries back. The call
  empties the dirty set and leaves the labels map and the known ids as they are. With no
  dirty id the entries are none and the record is appended all the same. The hypotheses
  are on the libraries: the entries marshal, unmarshal from what they were marshalled
  to, and gzip reads back what it wrote.
\<close>

theorem WriteLabels_flushes_dirty:
  assumes "asn1_Marshal_Labels c (WriteLabels_lbls ks db) = Some bs"
    and "asn1_Unmarshal_Labels c bs = Some (WriteLabels_lbls ks db)"
    and "gzip_ReadAll c (gzip_Write c bs) = Some bs"
  shows "\<exists>db'. WriteLabels c ks db = Inr db' \<and>
           content (fd db') = content (fd db) @
              frame \<lparr>sType = LabelsRecordType, sFeatures = FeatureCompressed,
                     sBytes = compress c bs\<rparr> \<and>
           recordValue c LabelsRecordType FeatureCompressed (compress c bs)
              = Inr (Some (LabelsValue (WriteLabels_lbls ks db))) \<and>
           EntryMessageID ` set (WriteLabels_lbls ks db) = fst ` set (labelsChanged db) \<and>
           distinct (map EntryMessageID (WriteLabels_lbls ks db)) \<and>
           length (WriteLabels_lbls ks db) = card (fst ` set (labelsChanged db)) \<and>
           (\<forall>e \<in> set (WriteLabels_lbls ks db).
              EntryLabels e = stringSliceToBytes (Labels db (EntryMessageID e))) \<and>
           (labelsChanged db = [] \<longrightarrow> WriteLabels_lbls ks db = []) \<and>
           labelsChanged db' = [] \<and> labels db' = labels db \<and> haveMsgID db' = haveMsgID db"
proof -
  let ?lbls = "WriteLabels_lbls ks db"
  let ?keys = "range_keys ks (labelsChanged db)"
  have e: "encodeRecord c FeatureCompressed bs = compress c bs"
    by (simp add: encodeRecord_def FeatureCompressed_def FeatureHashed_def)
  have w: "WriteLabels c ks db =
     Inr (db\<lparr>labelsChanged := [],
             fd := (fd db)\<lparr>content := content (fd db) @
                      frame \<lparr>sType = LabelsRecordType, sFeatures = FeatureCompressed,
                             sBytes = compress c bs\<rparr>,
                    offset := length (content (fd db)) + (8 + length (compress c bs))\<rparr>\<rparr>)"
    unfolding WriteLabels_def Let_def using assms(1)
    by (simp add: writeRecord_appends e)
  have r: "recordValue c LabelsRecordType FeatureCompressed (compress c bs)
              = Inr (Some (LabelsValue ?lbls))"
    using recordValue_written_Labels[OF assms(2,3)] by (simp add: e)
  have m: "map EntryMessageID ?lbls = ?keys"
    by (simp add: WriteLabels_lbls_map comp_def)
  have i: "EntryMessageID ` set ?lbls = fst ` set (labelsChanged db)"
    using m set_range_keys[of ks "labelsChanged db"] by (metis set_map)
  have d: "distinct (map EntryMessageID ?lbls)"
    using m distinct_range_keys[of ks "labelsChanged db"] by simp
  have "length ?lbls = length ?keys"
    by (simp add: WriteLabels_lbls_map)
  also have "\<dots> = card (set ?keys)"
    by (simp add: distinct_card distinct_range_keys)
  finally have n: "length ?lbls = card (fst ` set (labelsChanged db))"
    by (simp add: set_range_keys)
  have v: "\<forall>e \<in> set ?lbls. EntryLabels e = stringSliceToBytes (Labels db (EntryMessageID e))"
    unfolding WriteLabels_lbls_map by auto
  have z: "labelsChanged db = [] \<longrightarrow> ?lbls = []"
    by (simp add: WriteLabels_lbls_map range_keys_def)
  from w r i d n v z show ?thesis by simp
qed

theorem WriteLabels_flushes_dirty_witness:
  "labelsChanged ex_dirty = [(2, True)] \<and>
   Labels ex_dirty 1 = [[0x61]] \<and> Labels ex_dirty 2 = [[0x62]] \<and>
   WriteLabels_lbls [1, 5, 2] ex_dirty = [\<lparr>EntryMessageID = 2, EntryLabels = [[0x62]]\<rparr>] \<and>
   asn1_Marshal_Labels demo (WriteLabels_lbls [1, 5, 2] ex_dirty)
     = Some [1, 2, 0, 0, 0, 0, 0, 0, 0, 1, 1, 0x62] \<and>
   (\<exists>db'. WriteLabels demo [1, 5, 2] ex_dirty = Inr db' \<and>
      content (fd db') = content (fd ex_dirty) @
         frame \<lparr>sType = LabelsRecordType, sFeatures = FeatureCompressed,
                sBytes = compress demo [1, 2, 0, 0, 0, 0, 0, 0, 0, 1, 1, 0x62]\<rparr> \<and>
      recordValue demo LabelsRecordType FeatureCompressed
          (compress demo [1, 2, 0, 0, 0, 0, 0, 0, 0, 1, 1, 0x62])
        = Inr (Some (LabelsValue [\<lparr>EntryMessageID = 2, EntryLabels = [[0x62]]\<rparr>])) \<and>
      labelsChanged db' = [] \<and> Labels db' 1 = [[0x61]] \<and> Labels db' 2 = [[0x62]])"
proof -
  let ?bs = "[1, 2, 0, 0, 0, 0, 0, 0, 0, 1, 1, 0x62] :: bytes"
  have c: "labelsChanged ex_dirty = [(2, True)]"
    unfolding ex_dirty_def ex_flushed_def by code_simp
  have l: "Labels ex_dirty 1 = [[0x61]] \<and> Labels ex_dirty 2 = [[0x62]]"
    unfolding ex_dirty_def ex_flushed_def by code_simp
  have e: "WriteLabels_lbls [1, 5, 2] ex_dirty = [\<lparr>EntryMessageID = 2, EntryLabels = [[0x62]]\<rparr>]"
    unfolding ex_dirty_def ex_flushed_def by code_simp
  have 1: "asn1_Marshal_Labels demo (WriteLabels_lbls [1, 5, 2] ex_dirty) = Some ?bs"
    unfolding e by code_simp
  have 2: "asn1_Unmarshal_Labels demo ?bs = Some (WriteLabels_lbls [1, 5, 2] ex_dirty)"
    unfolding e by code_simp
  have 3: "gzip_ReadAll demo (gzip_Write demo ?bs) = Some ?bs"
    by (simp add: demo_def demo_gzip_Write_def demo_gzip_ReadAll_def)
  from WriteLabels_flushes_dirty[OF 1 2 3] obtain db' where
    w: "WriteLabels demo [1, 5, 2] ex_dirty = Inr db'"
    and f: "content (fd db') = content (fd ex_dirty) @
         frame \<lparr>sType = LabelsRecordType, sFeatures = FeatureCompressed, sBytes = compress demo ?bs\<rparr>"
    and r: "recordValue demo LabelsRecordType FeatureCompressed (compress demo ?bs)
              = Inr (Some (LabelsValue (WriteLabels_lbls [1, 5, 2] ex_dirty)))"
    and k: "labelsChanged db' = []" and u: "labels db' = labels ex_dirty"
    by blast
  from u l have l': "Labels db' 1 = [[0x61]] \<and> Labels db' 2 = [[0x62]]"
    by (simp add: Labels_def)
  from c l e 1 w f r k l' show ?thesis by (simp add: e)
qed

end
